theory Spec2Isabelle
  imports Main "HOL-Library.Word"
begin

section \<open>YomiMark content script: strings, tokens and the annotator\<close>

subsection \<open>JavaScript strings\<close>

text \<open>
  A JavaScript string is a sequence of 16-bit UTF-16 code units. The two regular
  expressions of \<^verbatim>\<open>content.js\<close> carry no \<^verbatim>\<open>u\<close> flag, so they match code unit by
  code unit, and \<^verbatim>\<open>charCodeAt\<close> / \<^verbatim>\<open>String.fromCharCode\<close> read and write code units.
\<close>

type_synonym code_unit = "16 word"
type_synonym jsstring = "code_unit list"

text \<open>The code units of an ASCII literal of the source.\<close>

definition js :: "string \<Rightarrow> jsstring" where
  "js s = map of_char s"

text \<open>
  The code points of a string, as the string iterator of the language reads them: a high
  surrogate followed by a low surrogate is one supplementary code point, every other code
  unit (a lone surrogate too) is its own code point.
\<close>

definition is_high_surrogate :: "code_unit \<Rightarrow> bool" where
  "is_high_surrogate c = (0xD800 \<le> c \<and> c \<le> 0xDBFF)"

definition is_low_surrogate :: "code_unit \<Rightarrow> bool" where
  "is_low_surrogate c = (0xDC00 \<le> c \<and> c \<le> 0xDFFF)"

fun code_points :: "jsstring \<Rightarrow> nat list" where
  "code_points [] = []"
| "code_points [c] = [unat c]"
| "code_points (hi # lo # cs) =
     (if is_high_surrogate hi \<and> is_low_surrogate lo
      then (0x10000 + (unat hi - 0xD800) * 0x400 + (unat lo - 0xDC00)) # code_points cs
      else unat hi # code_points (lo # cs))"

text \<open>
  \<^verbatim>\<open>regex.test(str)\<close> for a regular expression that is one character class without
  the global flag: the first index whose code unit is in the class decides.
\<close>

fun regex_test :: "(code_unit \<Rightarrow> bool) \<Rightarrow> jsstring \<Rightarrow> bool" where
  "regex_test cls [] = False"
| "regex_test cls (c # cs) = (if cls c then True else regex_test cls cs)"

text \<open>
  \<^verbatim>\<open>str.replace(regex, fn)\<close> for a one-character class with the global flag: every
  matching code unit is replaced by the string the callback returns for it, all other
  code units are copied.
\<close>

fun regex_replace_all ::
  "(code_unit \<Rightarrow> bool) \<Rightarrow> (code_unit \<Rightarrow> jsstring) \<Rightarrow> jsstring \<Rightarrow> jsstring" where
  "regex_replace_all cls fn [] = []"
| "regex_replace_all cls fn (c # cs) =
     (if cls c then fn c @ regex_replace_all cls fn cs
      else c # regex_replace_all cls fn cs)"

text \<open>\<^verbatim>\<open>ch.charCodeAt(0)\<close> on a one-unit match, and \<^verbatim>\<open>String.fromCharCode(n)\<close>, which
  takes its argument modulo \<open>2 ^ 16\<close>.\<close>

definition charCodeAt0 :: "code_unit \<Rightarrow> int" where
  "charCodeAt0 ch = uint ch"

definition fromCharCode :: "int \<Rightarrow> jsstring" where
  "fromCharCode n = [word_of_int (n mod 2 ^ 16)]"

subsection \<open>Kanji detection\<close>

text \<open>The class of \<^verbatim>\<open>KANJI_REGEX\<close>: the ranges U+4E00 to U+9FFF and U+3400 to U+4DBF.\<close>

definition KANJI_REGEX :: "code_unit \<Rightarrow> bool" where
  "KANJI_REGEX c = ((0x4E00 \<le> c \<and> c \<le> 0x9FFF) \<or> (0x3400 \<le> c \<and> c \<le> 0x4DBF))"

definition containsKanji :: "jsstring \<Rightarrow> bool" where
  "containsKanji str = regex_test KANJI_REGEX str"

subsection \<open>Katakana to hiragana\<close>

text \<open>The class U+30A1 to U+30F6 (global flag) and the callback of \<^verbatim>\<open>katakanaToHiragana\<close>.\<close>

definition KATAKANA_REGEX :: "code_unit \<Rightarrow> bool" where
  "KATAKANA_REGEX c = (0x30A1 \<le> c \<and> c \<le> 0x30F6)"

definition katakanaToHiragana :: "jsstring \<Rightarrow> jsstring" where
  "katakanaToHiragana str =
     regex_replace_all KATAKANA_REGEX (\<lambda>ch. fromCharCode (charCodeAt0 ch - 0x60)) str"

subsection \<open>Escaping\<close>

text \<open>
  \<^verbatim>\<open>escapeHTML\<close> puts the string into a text node under a fresh \<^verbatim>\<open>div\<close> and reads
  \<^verbatim>\<open>div.innerHTML\<close>. The browser serialises a text node (outside attribute mode) by
  replacing \<^verbatim>\<open>&\<close>, U+00A0, \<^verbatim>\<open><\<close> and \<^verbatim>\<open>>\<close> by their entities and copying every
  other code unit.
\<close>

definition escape_unit :: "code_unit \<Rightarrow> jsstring" where
  "escape_unit c =
     (if c = 0x26 then js ''&amp;''
      else if c = 0xA0 then js ''&nbsp;''
      else if c = 0x3C then js ''&lt;''
      else if c = 0x3E then js ''&gt;''
      else [c])"

definition escapeHTML :: "jsstring \<Rightarrow> jsstring" where
  "escapeHTML str = concat (map escape_unit str)"

subsection \<open>Tokens and \<^verbatim>\<open>buildRubyHTML\<close>\<close>

text \<open>
  A token of the tokenizer: \<^verbatim>\<open>surface_form\<close> is a string, \<^verbatim>\<open>reading\<close> is a string or
  absent (\<open>None\<close>).
\<close>

record token =
  surface_form :: jsstring
  reading :: "jsstring option"

text \<open>The errors a handler of the script can see.\<close>

datatype js_error = TypeError | LoadError nat

text \<open>Truthiness of \<^verbatim>\<open>reading\<close>: absent and the empty string are falsy.\<close>

fun truthy :: "jsstring option \<Rightarrow> bool" where
  "truthy None = False"
| "truthy (Some s) = (s \<noteq> [])"

definition RUBY_OPEN :: jsstring where
  \<open>RUBY_OPEN = js ''<ruby class="yomimark-ruby">''\<close>

definition RUBY_MID :: jsstring where
  "RUBY_MID = js ''<rp>(</rp><rt>''"

definition RUBY_CLOSE :: jsstring where
  "RUBY_CLOSE = js ''</rt><rp>)</rp></ruby>''"

text \<open>
  The body of the \<^verbatim>\<open>for\<close> loop: what one token appends to \<^verbatim>\<open>html\<close>. Calling
  \<^verbatim>\<open>katakanaToHiragana\<close> on an absent reading would raise a TypeError
  (\<^verbatim>\<open>undefined.replace\<close>); the model keeps that branch.
\<close>

definition token_html :: "token \<Rightarrow> js_error + jsstring" where
  "token_html token =
     (let surface = surface_form token; reading = reading token in
      if containsKanji surface \<and> truthy reading then
        (case reading of
           None \<Rightarrow> Inl TypeError
         | Some r \<Rightarrow>
             (let hiragana = katakanaToHiragana r in
              if hiragana \<noteq> surface
              then Inr (RUBY_OPEN @ escapeHTML surface @ RUBY_MID @ escapeHTML hiragana @ RUBY_CLOSE)
              else Inr (escapeHTML surface)))
      else Inr (escapeHTML surface))"

text \<open>The loop \<^verbatim>\<open>for (let i = 0; i < tokens.length; i++)\<close> with its accumulator.\<close>

function buildRubyHTML_loop :: "token list \<Rightarrow> nat \<Rightarrow> jsstring \<Rightarrow> js_error + jsstring" where
  "buildRubyHTML_loop tokens i html =
     (if i < length tokens then
        (case token_html (tokens ! i) of
           Inl e \<Rightarrow> Inl e
         | Inr piece \<Rightarrow> buildRubyHTML_loop tokens (i + 1) (html @ piece))
      else Inr html)"
  by pat_completeness auto
termination
  by (relation "measure (\<lambda>(tokens, i, html). length tokens - i)") auto

definition buildRubyHTML :: "token list \<Rightarrow> js_error + jsstring" where
  "buildRubyHTML tokens = buildRubyHTML_loop tokens 0 []"

section \<open>The spec's description of the two character classes\<close>

text \<open>The two blocks of the kanji detector, on code points.\<close>

definition in_kanji_blocks :: "nat \<Rightarrow> bool" where
  "in_kanji_blocks n = ((0x4E00 \<le> n \<and> n \<le> 0x9FFF) \<or> (0x3400 \<le> n \<and> n \<le> 0x4DBF))"

text \<open>The per-character map of the normaliser, on code points and on code units.\<close>

definition kana_code_point :: "nat \<Rightarrow> nat" where
  "kana_code_point n = (if 0x30A1 \<le> n \<and> n \<le> 0x30F6 then n - 0x60 else n)"

definition kana_unit :: "code_unit \<Rightarrow> code_unit" where
  "kana_unit c = (if KATAKANA_REGEX c then c - 0x60 else c)"

section \<open>The spec's description of one output segment\<close>

text \<open>
  The specification asks that token text be escaped as a text node is serialised: the
  characters \<^verbatim>\<open>&\<close>, \<^verbatim>\<open><\<close> and \<^verbatim>\<open>>\<close> (and the no-break space U+00A0) are written
  as their entities, every other character as itself. This definition is a table of the
  entities, written from the specification and independent of \<^verbatim>\<open>escapeHTML\<close>.
\<close>

definition entities :: "(code_unit \<times> string) list" where
  "entities = [(0x26, ''&amp;''), (0x3C, ''&lt;''), (0x3E, ''&gt;''), (0xA0, ''&nbsp;'')]"

definition spec_escape :: "jsstring \<Rightarrow> jsstring" where
  "spec_escape s =
     concat (map (\<lambda>c. case map_of entities c of Some e \<Rightarrow> js e | None \<Rightarrow> [c]) s)"

text \<open>
  The kanji test and the normaliser as the specification words them: some character lies
  in one of the two blocks; each character is mapped by the per-character map. Both are
  written on character codes and are independent of the two regular expressions.
\<close>

definition spec_contains_kanji :: "jsstring \<Rightarrow> bool" where
  "spec_contains_kanji s = (\<exists>c\<in>set s. in_kanji_blocks (unat c))"

definition spec_hiragana :: "jsstring \<Rightarrow> jsstring" where
  "spec_hiragana s = map (\<lambda>c. word_of_nat (kana_code_point (unat c))) s"

text \<open>
  The specification describes the output as one segment per token: the escaped surface
  form alone when the surface form has no kanji, or the reading is absent or empty, or the
  normalised reading is identical to the surface form; otherwise a ruby pairing of the
  escaped surface form and the escaped normalised reading with a parenthesised fallback.
  These definitions follow the specification's words and are compared with the loop.
\<close>

definition ruby_pairing :: "jsstring \<Rightarrow> jsstring \<Rightarrow> jsstring" where
  \<open>ruby_pairing base annotation =
     js ''<ruby class="yomimark-ruby">'' @ base @ js ''<rp>(</rp><rt>'' @ annotation
       @ js ''</rt><rp>)</rp></ruby>''\<close>

fun spec_segment :: "token \<Rightarrow> jsstring" where
  "spec_segment \<lparr>surface_form = surface, reading = None\<rparr> = spec_escape surface"
| "spec_segment \<lparr>surface_form = surface, reading = Some r\<rparr> =
     (if \<not> spec_contains_kanji surface \<or> r = [] \<or> spec_hiragana r = surface
      then spec_escape surface
      else ruby_pairing (spec_escape surface) (spec_escape (spec_hiragana r)))"

text \<open>
  Reading escaped text back: an ampersand in markup starts a character reference. The
  ampersands of a text are escaped when each of them starts one of the four references
  that \<^verbatim>\<open>escapeHTML\<close> writes.
\<close>

fun starts_with :: "jsstring \<Rightarrow> jsstring \<Rightarrow> bool" where
  "starts_with [] cs = True"
| "starts_with (p # ps) [] = False"
| "starts_with (p # ps) (c # cs) = (p = c \<and> starts_with ps cs)"

definition is_reference :: "jsstring \<Rightarrow> bool" where
  "is_reference cs =
     (starts_with (js ''&amp;'') cs \<or> starts_with (js ''&nbsp;'') cs
      \<or> starts_with (js ''&lt;'') cs \<or> starts_with (js ''&gt;'') cs)"

fun amps_escaped :: "jsstring \<Rightarrow> bool" where
  "amps_escaped [] = True"
| "amps_escaped (c # cs) = ((if c = 0x26 then is_reference (c # cs) else True) \<and> amps_escaped cs)"

text \<open>The tokens that get a ruby pairing, and how many of them a sequence has.\<close>

fun gets_ruby :: "token \<Rightarrow> bool" where
  "gets_ruby \<lparr>surface_form = surface, reading = None\<rparr> = False"
| "gets_ruby \<lparr>surface_form = surface, reading = Some r\<rparr> =
     (containsKanji surface \<and> r \<noteq> [] \<and> katakanaToHiragana r \<noteq> surface)"

definition ruby_count :: "token list \<Rightarrow> nat" where
  "ruby_count tokens = length (filter gets_ruby tokens)"

section \<open>Tokenizer initialisation and the annotation of a selection\<close>

subsection \<open>State of the content script and of its environment\<close>

text \<open>
  The tokenizer object that kuromoji builds is outside the repository. It is a handle, and
  its \<^verbatim>\<open>tokenize\<close> method is a parameter of every function that calls it.
\<close>

datatype tokenizer_handle = Tokenizer nat

type_synonym tokenize = "tokenizer_handle \<Rightarrow> jsstring \<Rightarrow> token list"

text \<open>The arguments \<^verbatim>\<open>(err, built)\<close> that kuromoji passes to the callback of \<^verbatim>\<open>build\<close>:
  a truthy error, or the tokenizer.\<close>

datatype build_result = Build_error js_error | Build_ok tokenizer_handle

text \<open>
  What \<^verbatim>\<open>initTokenizer\<close> returns: \<^verbatim>\<open>Promise.resolve(tokenizer)\<close>, already fulfilled
  with the current value of the variable (\<open>None\<close> is \<^verbatim>\<open>null\<close>), or the new promise
  around the \<open>n\<close>-th call of \<^verbatim>\<open>build\<close>. A promise settles as fulfilled or rejected.
\<close>

datatype promise = Promise_resolve "tokenizer_handle option" | New_promise nat

datatype outcome = Fulfilled "tokenizer_handle option" | Rejected js_error

datatype console_entry = Console_error jsstring js_error | Console_log jsstring

text \<open>
  The selection: \<^verbatim>\<open>rangeCount\<close>, the range \<^verbatim>\<open>getRangeAt(0)\<close> (ranges are named by
  numbers) and the text of \<^verbatim>\<open>toString()\<close>. The content of the page is the list of the
  operations the script has applied to ranges; an inserted wrapper is named by the markup
  it was parsed from.
\<close>

type_synonym range = nat

record selection =
  rangeCount :: nat
  getRangeAt0 :: range
  toString :: jsstring

datatype dom_op = DeleteContents range | InsertNode range jsstring | RemoveAllRanges

record button =
  textContent :: jsstring
  loading :: bool

text \<open>
  The handlers attached to a promise: \<^verbatim>\<open>.then(...).catch(...)\<close> of
  \<^verbatim>\<open>annotateSelection\<close>, which capture the range and the trimmed text, and the empty
  \<^verbatim>\<open>.catch\<close> of the preload.
\<close>

datatype reaction = Annotate_handlers range jsstring | Preload_handler

text \<open>
  \<open>tokenizer\<close>, \<open>tokenizerLoading\<close> and \<open>floatingBtn\<close> are the variables of the
  script (a button that is not \<open>None\<close> is attached to the page). The other fields are
  the environment: how many times \<^verbatim>\<open>build\<close> was called, the builds whose callback has
  not run, the handlers waiting on a promise, the promises that have settled, the console
  and the page.
\<close>

record state =
  tokenizer :: "tokenizer_handle option"
  tokenizerLoading :: bool
  floatingBtn :: "button option"
  builds :: nat
  pending :: "nat list"
  reactions :: "(nat \<times> reaction) list"
  settled :: "(nat \<times> outcome) list"
  console :: "console_entry list"
  document_ops :: "dom_op list"

definition initial_state :: state where
  "initial_state =
     \<lparr>tokenizer = None, tokenizerLoading = False, floatingBtn = None, builds = 0,
      pending = [], reactions = [], settled = [],
      console = [Console_log (js ''[YomiMark] Content script loaded'')],
      document_ops = []\<rparr>"

text \<open>How a call of a function of the script completes for its caller.\<close>

datatype completion = Returns_undefined | Throws js_error

subsection \<open>\<^verbatim>\<open>initTokenizer\<close>\<close>

definition initTokenizer :: "state \<Rightarrow> promise \<times> state" where
  "initTokenizer st =
     (if tokenizer st \<noteq> None \<or> tokenizerLoading st then (Promise_resolve (tokenizer st), st)
      else
        (let st1 = st\<lparr>tokenizerLoading := True\<rparr>;
             n = builds st1
         in (New_promise n, st1\<lparr>builds := n + 1, pending := pending st1 @ [n]\<rparr>)))"

subsection \<open>The floating button\<close>

definition removeFloatingBtn :: "state \<Rightarrow> state" where
  "removeFloatingBtn st = st\<lparr>floatingBtn := None\<rparr>"

definition createFloatingBtn :: "state \<Rightarrow> state" where
  "createFloatingBtn st =
     (removeFloatingBtn st)\<lparr>floatingBtn := Some \<lparr>textContent = [0x8AAD], loading = False\<rparr>\<rparr>"

subsection \<open>\<^verbatim>\<open>annotateSelection\<close>\<close>

text \<open>\<^verbatim>\<open>String.prototype.trim\<close>: white space and line terminators of the language.\<close>

definition is_white_space :: "code_unit \<Rightarrow> bool" where
  "is_white_space c =
     (c \<in> set [0x9, 0xA, 0xB, 0xC, 0xD, 0x20, 0xA0, 0x1680, 0x2028, 0x2029, 0x202F, 0x205F,
               0x3000, 0xFEFF]
      \<or> (0x2000 \<le> c \<and> c \<le> 0x200A))"

definition trim :: "jsstring \<Rightarrow> jsstring" where
  "trim s = rev (dropWhile is_white_space (rev (dropWhile is_white_space s)))"

text \<open>
  The function passed to \<^verbatim>\<open>.then\<close>. \<^verbatim>\<open>tk.tokenize\<close> on \<^verbatim>\<open>null\<close> raises a
  TypeError, and so would \<^verbatim>\<open>buildRubyHTML\<close> if it raised; both happen before the page
  is touched. The operations on the page are taken not to raise.
\<close>

definition then_handler ::
  "tokenize \<Rightarrow> range \<Rightarrow> jsstring \<Rightarrow> tokenizer_handle option \<Rightarrow> state \<Rightarrow> js_error + state" where
  "then_handler tokenize rng selectedText tk st =
     (case tk of
        None \<Rightarrow> Inl TypeError
      | Some h \<Rightarrow>
          (case buildRubyHTML (tokenize h selectedText) of
             Inl e \<Rightarrow> Inl e
           | Inr rubyHTML \<Rightarrow>
               Inr (removeFloatingBtn
                 (st\<lparr>document_ops := document_ops st
                        @ [DeleteContents rng, InsertNode rng rubyHTML, RemoveAllRanges]\<rparr>))))"

text \<open>The function passed to \<^verbatim>\<open>.catch\<close>.\<close>

definition catch_handler :: "js_error \<Rightarrow> state \<Rightarrow> state" where
  "catch_handler err st =
     removeFloatingBtn
       (st\<lparr>console := console st @ [Console_error (js ''[YomiMark] Annotation failed:'') err]\<rparr>)"

text \<open>Running the handlers of a settled promise: an error raised in the \<^verbatim>\<open>then\<close>
  function goes to the \<^verbatim>\<open>catch\<close> function.\<close>

definition run_reaction :: "tokenize \<Rightarrow> reaction \<Rightarrow> outcome \<Rightarrow> state \<Rightarrow> state" where
  "run_reaction tokenize r out st =
     (case r of
        Preload_handler \<Rightarrow> st
      | Annotate_handlers rng selectedText \<Rightarrow>
          (case out of
             Fulfilled tk \<Rightarrow>
               (case then_handler tokenize rng selectedText tk st of
                  Inl e \<Rightarrow> catch_handler e st
                | Inr st' \<Rightarrow> st')
           | Rejected err \<Rightarrow> catch_handler err st))"

text \<open>
  Attaching handlers to a promise. On a promise that has settled they run as the next
  microtask, before any other event, so the model runs them at once; on a pending
  promise they wait.
\<close>

definition then_catch :: "tokenize \<Rightarrow> promise \<Rightarrow> reaction \<Rightarrow> state \<Rightarrow> state" where
  "then_catch tokenize p r st =
     (case p of
        Promise_resolve v \<Rightarrow> run_reaction tokenize r (Fulfilled v) st
      | New_promise n \<Rightarrow>
          (case map_of (settled st) n of
             Some out \<Rightarrow> run_reaction tokenize r out st
           | None \<Rightarrow> st\<lparr>reactions := reactions st @ [(n, r)]\<rparr>))"

definition annotateSelection ::
  "tokenize \<Rightarrow> selection option \<Rightarrow> state \<Rightarrow> completion \<times> state" where
  "annotateSelection tokenize sel st =
     (case sel of
        None \<Rightarrow> (Returns_undefined, st)
      | Some selection \<Rightarrow>
          if rangeCount selection = 0 then (Returns_undefined, st)
          else
            (let rng = getRangeAt0 selection;
                 selectedText = trim (toString selection)
             in if selectedText = [] then (Returns_undefined, st)
                else
                  (let st1 = (case floatingBtn st of
                                None \<Rightarrow> st
                              | Some b \<Rightarrow>
                                  st\<lparr>floatingBtn :=
                                       Some (b\<lparr>loading := True, textContent := [0x23F3]\<rparr>)\<rparr>);
                       (p, st2) = initTokenizer st1
                   in (Returns_undefined,
                       then_catch tokenize p (Annotate_handlers rng selectedText) st2))))"

subsection \<open>The callback of \<^verbatim>\<open>build\<close> and the events of a run\<close>

text \<open>Settling the promise of build \<open>n\<close> runs the handlers that wait on it, in the
  order they were attached.\<close>

definition settle :: "tokenize \<Rightarrow> nat \<Rightarrow> outcome \<Rightarrow> state \<Rightarrow> state" where
  "settle tokenize n out st =
     (let waiting = filter (\<lambda>(m, r). m = n) (reactions st);
          st1 = st\<lparr>settled := settled st @ [(n, out)],
                    reactions := filter (\<lambda>(m, r). m \<noteq> n) (reactions st)\<rparr>
      in foldl (\<lambda>s (m, r). run_reaction tokenize r out s) st1 waiting)"

definition build_callback :: "tokenize \<Rightarrow> nat \<Rightarrow> build_result \<Rightarrow> state \<Rightarrow> state" where
  "build_callback tokenize n res st =
     (let st1 = st\<lparr>tokenizerLoading := False\<rparr> in
      case res of
        Build_error err \<Rightarrow>
          settle tokenize n (Rejected err)
            (st1\<lparr>console := console st1
                    @ [Console_error (js ''[YomiMark] Failed to load tokenizer:'') err]\<rparr>)
      | Build_ok built \<Rightarrow>
          (let st2 = st1\<lparr>tokenizer := Some built\<rparr>;
               st3 = st2\<lparr>console := console st2 @ [Console_log (js ''[YomiMark] Tokenizer ready'')]\<rparr>
           in settle tokenize n (Fulfilled (tokenizer st3)) st3))"

text \<open>What a holder of a promise has received so far.\<close>

definition promise_outcome :: "state \<Rightarrow> promise \<Rightarrow> outcome option" where
  "promise_outcome st p =
     (case p of
        Promise_resolve v \<Rightarrow> Some (Fulfilled v)
      | New_promise n \<Rightarrow> map_of (settled st) n)"

text \<open>
  The events of the page that reach these functions: the preload timer calling
  \<^verbatim>\<open>initTokenizer().catch(...)\<close>, a press of the button calling
  \<^verbatim>\<open>annotateSelection\<close>, kuromoji finishing a build that is pending (it calls the
  callback once), and the mouse handlers creating or removing the button. The flag
  \<^verbatim>\<open>enabled\<close> only decides whether the preload and the button creation happen.
\<close>

datatype event =
    Ev_preload
  | Ev_annotate "selection option"
  | Ev_build nat build_result
  | Ev_create_button
  | Ev_remove_button

fun step :: "tokenize \<Rightarrow> event \<Rightarrow> state \<Rightarrow> state" where
  "step tokenize Ev_preload st =
     (let (p, st1) = initTokenizer st in then_catch tokenize p Preload_handler st1)"
| "step tokenize (Ev_annotate sel) st = snd (annotateSelection tokenize sel st)"
| "step tokenize (Ev_build n res) st =
     (if n \<in> set (pending st)
      then build_callback tokenize n res (st\<lparr>pending := removeAll n (pending st)\<rparr>)
      else st)"
| "step tokenize Ev_create_button st = createFloatingBtn st"
| "step tokenize Ev_remove_button st = removeFloatingBtn st"

definition run :: "tokenize \<Rightarrow> event list \<Rightarrow> state \<Rightarrow> state" where
  "run tokenize evs st = foldl (\<lambda>s e. step tokenize e s) st evs"

fun is_build_ok :: "event \<Rightarrow> bool" where
  "is_build_ok (Ev_build n (Build_ok h)) = True"
| "is_build_ok e = False"

fun is_build_of :: "nat \<Rightarrow> event \<Rightarrow> bool" where
  "is_build_of n (Ev_build m res) = (m = n)"
| "is_build_of n e = False"

section \<open>Invariant of the runs, and an example\<close>

text \<open>
  What holds in every state a run reaches: while a load is in progress the tokenizer is
  still \<^verbatim>\<open>null\<close> and exactly one build is pending, otherwise none is; and only
  builds that were started are pending or have settled.
\<close>

definition wf_state :: "state \<Rightarrow> bool" where
  "wf_state st =
     ((if tokenizerLoading st then tokenizer st = None \<and> (\<exists>n. pending st = [n])
       else pending st = [])
      \<and> (\<forall>m\<in>set (pending st). m < builds st)
      \<and> (\<forall>m\<in>fst ` set (settled st). m < builds st))"

text \<open>While every load has failed: no tokenizer, an untouched page, and only rejected
  promises.\<close>

definition never_loaded :: "state \<Rightarrow> bool" where
  "never_loaded st =
     (tokenizer st = None \<and> document_ops st = []
      \<and> (\<forall>out\<in>snd ` set (settled st). \<exists>e. out = Rejected e))"

text \<open>A tokenizer that returns the text as one token read "kanji", and a selection of
  the two characters U+6F22 U+5B57.\<close>

definition example_tokenize :: tokenize where
  "example_tokenize h s = [\<lparr>surface_form = s, reading = Some [0x30AB, 0x30F3, 0x30B8]\<rparr>]"

definition example_selection :: selection where
  "example_selection = \<lparr>rangeCount = 1, getRangeAt0 = 0, toString = [0x6F22, 0x5B57]\<rparr>"

section \<open>Kanji detection\<close>

declare buildRubyHTML_loop.simps [simp del]

lemma regex_test_iff: "regex_test cls s \<longleftrightarrow> (\<exists>c\<in>set s. cls c)"
  by (induction s) auto

lemma KANJI_REGEX_unat: "KANJI_REGEX c \<longleftrightarrow> in_kanji_blocks (unat c)"
  by (simp add: KANJI_REGEX_def in_kanji_blocks_def word_le_nat_alt)

lemma is_high_surrogate_unat: "is_high_surrogate c \<longleftrightarrow> 0xD800 \<le> unat c \<and> unat c \<le> 0xDBFF"
  by (simp add: is_high_surrogate_def word_le_nat_alt)

lemma is_low_surrogate_unat: "is_low_surrogate c \<longleftrightarrow> 0xDC00 \<le> unat c \<and> unat c \<le> 0xDFFF"
  by (simp add: is_low_surrogate_def word_le_nat_alt)

lemma surrogate_pair_not_kanji:
  assumes "is_high_surrogate hi" "is_low_surrogate lo"
  shows "\<not> KANJI_REGEX hi" "\<not> KANJI_REGEX lo"
    "\<not> in_kanji_blocks (0x10000 + (unat hi - 0xD800) * 0x400 + (unat lo - 0xDC00))"
  using assms
  by (simp_all add: KANJI_REGEX_unat in_kanji_blocks_def is_high_surrogate_unat
      is_low_surrogate_unat)

lemma code_points_kanji:
  "(\<exists>n\<in>set (code_points s). in_kanji_blocks n) \<longleftrightarrow> (\<exists>c\<in>set s. KANJI_REGEX c)"
proof (induction s rule: code_points.induct)
  case 1
  then show ?case by simp
next
  case (2 c)
  then show ?case by (simp add: KANJI_REGEX_unat)
next
  case (3 hi lo cs)
  show ?case
  proof (cases "is_high_surrogate hi \<and> is_low_surrogate lo")
    case True
    then show ?thesis
      using 3 surrogate_pair_not_kanji [of hi lo] by simp
  next
    case False
    then show ?thesis using 3 by (auto simp: KANJI_REGEX_unat)
  qed
qed

text \<open>
  C4. For every string, \<^verbatim>\<open>containsKanji\<close> is true exactly when some character of the
  string has its code point in U+4E00 to U+9FFF or in U+3400 to U+4DBF. The characters are
  read as code points (a surrogate pair is one character outside both blocks) and,
  equivalently, as code units. The function is a structural recursion over the string and
  has no error branch.
\<close>

theorem containsKanji_iff_kanji_block:
  "(containsKanji s \<longleftrightarrow> (\<exists>n\<in>set (code_points s). in_kanji_blocks n))
   \<and> (containsKanji s \<longleftrightarrow> (\<exists>c\<in>set s. in_kanji_blocks (unat c)))"
  by (simp add: containsKanji_def regex_test_iff code_points_kanji KANJI_REGEX_unat)

theorem containsKanji_iff_kanji_block_witness:
  "containsKanji [0x79C1] \<and> \<not> containsKanji (js ''Hello'')
   \<and> \<not> containsKanji [0xD840, 0xDC00]"
proof -
  have a: "containsKanji [0x79C1] \<longleftrightarrow> (\<exists>c\<in>set [0x79C1 :: code_unit]. in_kanji_blocks (unat c))"
    by (rule containsKanji_iff_kanji_block [THEN conjunct2])
  have b: "containsKanji (js ''Hello'')
      \<longleftrightarrow> (\<exists>c\<in>set (js ''Hello''). in_kanji_blocks (unat c))"
    by (rule containsKanji_iff_kanji_block [THEN conjunct2])
  have c: "containsKanji [0xD840, 0xDC00]
      \<longleftrightarrow> (\<exists>n\<in>set (code_points [0xD840, 0xDC00]). in_kanji_blocks n)"
    by (rule containsKanji_iff_kanji_block [THEN conjunct1])
  show ?thesis
    unfolding a b c
    by (simp add: in_kanji_blocks_def js_def is_high_surrogate_def is_low_surrogate_def)
qed

section \<open>Katakana to hiragana\<close>

lemma word_of_int_mod_65536: "(word_of_int (n mod 65536) :: code_unit) = word_of_int n"
  by transfer (simp add: take_bit_eq_mod)

lemma katakanaToHiragana_map: "katakanaToHiragana s = map kana_unit s"
  by (induction s)
    (simp_all add: katakanaToHiragana_def kana_unit_def fromCharCode_def charCodeAt0_def
      word_of_int_mod_65536)

lemma KATAKANA_REGEX_unat: "KATAKANA_REGEX c \<longleftrightarrow> 0x30A1 \<le> unat c \<and> unat c \<le> 0x30F6"
  by (simp add: KATAKANA_REGEX_def word_le_nat_alt)

lemma unat_shift: "KATAKANA_REGEX c \<Longrightarrow> unat (c - 0x60) = unat c - 0x60"
  by (simp add: KATAKANA_REGEX_unat unat_sub word_le_nat_alt)

lemma unat_kana_unit: "unat (kana_unit c) = kana_code_point (unat c)"
  using unat_shift [of c] by (simp add: kana_unit_def kana_code_point_def KATAKANA_REGEX_unat)

lemma kana_unit_not_katakana: "\<not> KATAKANA_REGEX (kana_unit c)"
  unfolding KATAKANA_REGEX_unat [of "kana_unit c"] unat_kana_unit kana_code_point_def by auto

lemma kana_unit_idem: "kana_unit (kana_unit c) = kana_unit c"
  using kana_unit_not_katakana [of c] by (simp add: kana_unit_def [of "kana_unit c"])

lemma kana_unit_high: "is_high_surrogate (kana_unit c) = is_high_surrogate c"
  unfolding is_high_surrogate_unat unat_kana_unit kana_code_point_def by auto

lemma kana_unit_low: "is_low_surrogate (kana_unit c) = is_low_surrogate c"
  unfolding is_low_surrogate_unat unat_kana_unit kana_code_point_def by auto

lemma kana_unit_surrogate: "is_high_surrogate c \<or> is_low_surrogate c \<Longrightarrow> kana_unit c = c"
  by (auto simp: kana_unit_def KATAKANA_REGEX_unat is_high_surrogate_unat is_low_surrogate_unat)

lemma code_points_kana:
  "code_points (map kana_unit s) = map kana_code_point (code_points s)"
proof (induction s rule: code_points.induct)
  case 1
  then show ?case by simp
next
  case (2 c)
  then show ?case by (simp add: unat_kana_unit)
next
  case (3 hi lo cs)
  show ?case
  proof (cases "is_high_surrogate hi \<and> is_low_surrogate lo")
    case True
    then have "kana_unit hi = hi" "kana_unit lo = lo"
      by (simp_all add: kana_unit_surrogate)
    moreover have "kana_code_point (0x10000 + (unat hi - 0xD800) * 0x400 + (unat lo - 0xDC00))
       = 0x10000 + (unat hi - 0xD800) * 0x400 + (unat lo - 0xDC00)"
      by (simp add: kana_code_point_def)
    ultimately show ?thesis using True 3 by simp
  next
    case False
    then have a: "code_points (hi # lo # cs) = unat hi # code_points (lo # cs)"
      by auto
    from False have "\<not> (is_high_surrogate (kana_unit hi) \<and> is_low_surrogate (kana_unit lo))"
      by (simp add: kana_unit_high kana_unit_low)
    then have b: "code_points (map kana_unit (hi # lo # cs))
        = unat (kana_unit hi) # code_points (map kana_unit (lo # cs))"
      by auto
    show ?thesis
      unfolding a b unat_kana_unit using 3(2) [OF False] by simp
  qed
qed

text \<open>
  C5. \<^verbatim>\<open>katakanaToHiragana\<close> maps each character on its own: read as code units or as
  code points, a character in U+30A1 to U+30F6 becomes the one 0x60 below and every other
  character is unchanged; the long-vowel mark U+30FC, a katakana-block character outside
  the range, passes through.
\<close>

theorem katakanaToHiragana_per_character:
  "map unat (katakanaToHiragana s) = map kana_code_point (map unat s)
   \<and> code_points (katakanaToHiragana s) = map kana_code_point (code_points s)
   \<and> katakanaToHiragana [0x30FC] = [0x30FC]
   \<and> katakanaToHiragana [0x30A1] = [0x3041] \<and> katakanaToHiragana [0x30F6] = [0x3096]"
proof -
  have "map unat (katakanaToHiragana s) = map kana_code_point (map unat s)"
    by (simp add: katakanaToHiragana_map unat_kana_unit)
  moreover have "code_points (katakanaToHiragana s) = map kana_code_point (code_points s)"
    by (simp add: katakanaToHiragana_map code_points_kana)
  moreover have "katakanaToHiragana [0x30FC] = [0x30FC]"
    "katakanaToHiragana [0x30A1] = [0x3041]" "katakanaToHiragana [0x30F6] = [0x3096]"
    by (simp_all add: katakanaToHiragana_map kana_unit_def KATAKANA_REGEX_def)
  ultimately show ?thesis by simp
qed

text \<open>
  C7. Applying \<^verbatim>\<open>katakanaToHiragana\<close> to its own output changes nothing.
\<close>

theorem katakanaToHiragana_idempotent:
  "katakanaToHiragana (katakanaToHiragana s) = katakanaToHiragana s"
  by (simp add: katakanaToHiragana_map kana_unit_idem)

text \<open>
  C9. \<^verbatim>\<open>katakanaToHiragana\<close> distributes over concatenation, and its output has as
  many characters as its input, counted as code units and as code points.
\<close>

theorem katakanaToHiragana_append_length:
  "katakanaToHiragana (a @ b) = katakanaToHiragana a @ katakanaToHiragana b
   \<and> length (katakanaToHiragana s) = length s
   \<and> length (code_points (katakanaToHiragana s)) = length (code_points s)"
  by (simp add: katakanaToHiragana_map code_points_kana)

section \<open>The annotator\<close>

lemma escape_unit_entities:
  "escape_unit c = (case map_of entities c of Some e \<Rightarrow> js e | None \<Rightarrow> [c])"
  by (simp add: escape_unit_def entities_def)

lemma escapeHTML_spec_escape: "escapeHTML s = spec_escape s"
proof -
  have "escape_unit = (\<lambda>c. case map_of entities c of Some e \<Rightarrow> js e | None \<Rightarrow> [c])"
    by (rule ext) (rule escape_unit_entities)
  then show ?thesis
    by (simp add: escapeHTML_def spec_escape_def)
qed

lemma containsKanji_spec: "containsKanji s = spec_contains_kanji s"
  by (simp add: containsKanji_def regex_test_iff KANJI_REGEX_unat spec_contains_kanji_def)

lemma kana_unit_code_point: "kana_unit c = word_of_nat (kana_code_point (unat c))"
  by (simp add: unat_kana_unit [symmetric])

lemma katakanaToHiragana_spec: "katakanaToHiragana s = spec_hiragana s"
  by (simp add: katakanaToHiragana_map spec_hiragana_def kana_unit_code_point)

lemma spec_segment_escapeHTML [simp]:
  "spec_segment \<lparr>surface_form = surface, reading = None\<rparr> = escapeHTML surface"
  "spec_segment \<lparr>surface_form = surface, reading = Some r\<rparr> =
     (if \<not> containsKanji surface \<or> r = [] \<or> katakanaToHiragana r = surface
      then escapeHTML surface
      else ruby_pairing (escapeHTML surface) (escapeHTML (katakanaToHiragana r)))"
  by (simp_all add: escapeHTML_spec_escape containsKanji_spec katakanaToHiragana_spec)

declare spec_segment.simps [simp del]

lemma token_html_spec: "token_html t = Inr (spec_segment t)"
proof (cases t)
  case (fields surface rd)
  then show ?thesis
    by (cases rd)
      (simp_all add: token_html_def ruby_pairing_def RUBY_OPEN_def RUBY_MID_def RUBY_CLOSE_def
        Let_def)
qed

lemma buildRubyHTML_loop_spec:
  "buildRubyHTML_loop tokens i html = Inr (html @ concat (map spec_segment (drop i tokens)))"
proof (induction tokens i html rule: buildRubyHTML_loop.induct)
  case (1 tokens i html)
  show ?case
  proof (cases "i < length tokens")
    case True
    then have d: "drop i tokens = tokens ! i # drop (i + 1) tokens"
      by (simp add: Cons_nth_drop_Suc)
    have "buildRubyHTML_loop tokens i html
        = buildRubyHTML_loop tokens (i + 1) (html @ spec_segment (tokens ! i))"
      by (subst buildRubyHTML_loop.simps) (simp add: True token_html_spec)
    also have "\<dots> = Inr ((html @ spec_segment (tokens ! i))
        @ concat (map spec_segment (drop (i + 1) tokens)))"
      by (rule 1) (simp_all add: True token_html_spec)
    finally show ?thesis by (simp add: d)
  next
    case False
    then show ?thesis by (subst buildRubyHTML_loop.simps) simp
  qed
qed

lemma buildRubyHTML_concat: "buildRubyHTML tokens = Inr (concat (map spec_segment tokens))"
  by (simp add: buildRubyHTML_def buildRubyHTML_loop_spec)

text \<open>
  C1. For every sequence of tokens \<^verbatim>\<open>buildRubyHTML\<close> returns the concatenation, in input
  order, of one segment per token: the escaped surface form alone when the surface form
  has no kanji, or the reading is absent or empty, or the normalised reading is identical
  to the surface form, and otherwise the ruby pairing of the escaped surface form and the
  escaped normalised reading with its parenthesised fallback. The segment is stated with
  the specification's own kanji test, normaliser and table of entities
  (\<open>spec_contains_kanji\<close>, \<open>spec_hiragana\<close>, \<open>spec_escape\<close>), not with the functions
  of the source that the loop calls.
\<close>

theorem buildRubyHTML_segments:
  "buildRubyHTML tokens = Inr (concat (map spec_segment tokens))"
  by (rule buildRubyHTML_concat)

theorem buildRubyHTML_segments_witness:
  \<open>buildRubyHTML
     [\<lparr>surface_form = [0x3C, 0x79C1, 0x26, 0x3E],
       reading = Some [0x30EF, 0x30BF, 0x30B7, 0x3E]\<rparr>,
      \<lparr>surface_form = [0x306F], reading = Some [0x30CF]\<rparr>,
      \<lparr>surface_form = js ''a<b&c>'', reading = None\<rparr>,
      \<lparr>surface_form = [0x79C1], reading = Some []\<rparr>,
      \<lparr>surface_form = [0x79C1, 0xA0], reading = None\<rparr>]
   = Inr (js ''<ruby class="yomimark-ruby">&lt;'' @ [0x79C1] @ js ''&amp;&gt;<rp>(</rp><rt>''
          @ [0x308F, 0x305F, 0x3057] @ js ''&gt;</rt><rp>)</rp></ruby>''
          @ [0x306F]
          @ js ''a&lt;b&amp;c&gt;''
          @ [0x79C1]
          @ [0x79C1] @ js ''&nbsp;'')\<close>
  unfolding buildRubyHTML_segments
  by (simp add: spec_segment.simps spec_escape_def entities_def ruby_pairing_def
      spec_contains_kanji_def in_kanji_blocks_def spec_hiragana_def kana_code_point_def
      containsKanji_def KANJI_REGEX_def katakanaToHiragana_map kana_unit_def
      KATAKANA_REGEX_def escapeHTML_def escape_unit_def js_def)

subsection \<open>Escaping\<close>

lemma escape_unit_no_lt: "0x3C \<notin> set (escape_unit c)"
  by (simp add: escape_unit_def js_def)

lemma escape_unit_no_gt: "0x3E \<notin> set (escape_unit c)"
  by (simp add: escape_unit_def js_def)

lemma escapeHTML_no_lt: "0x3C \<notin> set (escapeHTML s)"
  by (simp add: escapeHTML_def escape_unit_no_lt)

lemma escapeHTML_no_gt: "0x3E \<notin> set (escapeHTML s)"
  by (simp add: escapeHTML_def escape_unit_no_gt)

lemma escapeHTML_append: "escapeHTML (a @ b) = escapeHTML a @ escapeHTML b"
  by (simp add: escapeHTML_def)

lemma escapeHTML_Cons: "escapeHTML (c # cs) = escape_unit c @ escapeHTML cs"
  by (simp add: escapeHTML_def)

lemma starts_with_append: "starts_with p cs \<Longrightarrow> starts_with p (cs @ b)"
  by (induction p cs rule: starts_with.induct) simp_all

lemma is_reference_append: "is_reference cs \<Longrightarrow> is_reference (cs @ b)"
  by (auto simp: is_reference_def starts_with_append)

lemma amps_escaped_append: "amps_escaped a \<Longrightarrow> amps_escaped b \<Longrightarrow> amps_escaped (a @ b)"
proof (induction a)
  case Nil
  then show ?case by simp
next
  case (Cons c cs)
  then show ?case using is_reference_append [of "c # cs" b] by auto
qed

lemma amps_escaped_unit: "amps_escaped (escape_unit c)"
  by (simp add: escape_unit_def js_def is_reference_def)

lemma amps_escaped_escapeHTML: "amps_escaped (escapeHTML s)"
  by (induction s) (simp_all add: escapeHTML_def amps_escaped_append amps_escaped_unit)

lemma amps_escaped_ruby:
  assumes a: "amps_escaped a" and b: "amps_escaped b"
  shows "amps_escaped (ruby_pairing a b)"
proof -
  have 1: \<open>amps_escaped (js ''<ruby class="yomimark-ruby">'')\<close> by (simp add: js_def)
  have 2: "amps_escaped (js ''<rp>(</rp><rt>'')" by (simp add: js_def)
  have 3: "amps_escaped (js ''</rt><rp>)</rp></ruby>'')" by (simp add: js_def)
  show ?thesis unfolding ruby_pairing_def
    by (intro amps_escaped_append a b 1 2 3)
qed

lemma amps_escaped_segment: "amps_escaped (spec_segment t)"
proof (cases t)
  case (fields surface rd)
  then show ?thesis
    by (cases rd) (simp_all add: amps_escaped_escapeHTML amps_escaped_ruby)
qed

lemma amps_escaped_segments: "amps_escaped (concat (map spec_segment tokens))"
  by (induction tokens) (simp_all add: amps_escaped_append amps_escaped_segment)

lemma count_escapeHTML_lt: "count_list (escapeHTML s) 0x3C = 0"
  by (simp add: escapeHTML_no_lt)

lemma count_escapeHTML_gt: "count_list (escapeHTML s) 0x3E = 0"
  by (simp add: escapeHTML_no_gt)

lemma count_ruby_lt: "count_list (ruby_pairing (escapeHTML a) (escapeHTML b)) 0x3C = 8"
  by (simp add: ruby_pairing_def count_escapeHTML_lt) (simp add: js_def)

lemma count_ruby_gt: "count_list (ruby_pairing (escapeHTML a) (escapeHTML b)) 0x3E = 8"
  by (simp add: ruby_pairing_def count_escapeHTML_gt) (simp add: js_def)

lemma count_segment_lt: "count_list (spec_segment t) 0x3C = (if gets_ruby t then 8 else 0)"
proof (cases t)
  case (fields surface rd)
  then show ?thesis
    by (cases rd) (auto simp: count_escapeHTML_lt count_ruby_lt)
qed

lemma count_segment_gt: "count_list (spec_segment t) 0x3E = (if gets_ruby t then 8 else 0)"
proof (cases t)
  case (fields surface rd)
  then show ?thesis
    by (cases rd) (auto simp: count_escapeHTML_gt count_ruby_gt)
qed

lemma count_segments_lt:
  "count_list (concat (map spec_segment tokens)) 0x3C = 8 * ruby_count tokens"
  by (induction tokens) (simp_all add: ruby_count_def count_segment_lt)

lemma count_segments_gt:
  "count_list (concat (map spec_segment tokens)) 0x3E = 8 * ruby_count tokens"
  by (induction tokens) (simp_all add: ruby_count_def count_segment_gt)

text \<open>
  C3. Token text reaches the output of \<^verbatim>\<open>buildRubyHTML\<close> only through
  \<^verbatim>\<open>escapeHTML\<close>. Escaped text holds no angle bracket, each of its ampersands starts a
  character reference, and an ampersand or angle bracket anywhere in the text is written
  as its entity. So in the output of \<^verbatim>\<open>buildRubyHTML\<close> every ampersand starts a
  reference and the only angle brackets are the eight pairs of each ruby pairing's own
  tags. For the single token with surface form \<^verbatim>\<open><script>\<close> and no reading the output
  is \<^verbatim>\<open>&lt;script&gt;\<close>.
\<close>

theorem buildRubyHTML_escapes_token_text:
  "(\<exists>out. buildRubyHTML tokens = Inr out
      \<and> count_list out 0x3C = 8 * ruby_count tokens
      \<and> count_list out 0x3E = 8 * ruby_count tokens
      \<and> amps_escaped out)
   \<and> 0x3C \<notin> set (escapeHTML s) \<and> 0x3E \<notin> set (escapeHTML s) \<and> amps_escaped (escapeHTML s)
   \<and> escapeHTML (a @ 0x26 # b) = escapeHTML a @ js ''&amp;'' @ escapeHTML b
   \<and> escapeHTML (a @ 0x3C # b) = escapeHTML a @ js ''&lt;'' @ escapeHTML b
   \<and> escapeHTML (a @ 0x3E # b) = escapeHTML a @ js ''&gt;'' @ escapeHTML b
   \<and> buildRubyHTML [\<lparr>surface_form = js ''<script>'', reading = None\<rparr>]
       = Inr (js ''&lt;script&gt;'')"
proof -
  have "\<exists>out. buildRubyHTML tokens = Inr out
      \<and> count_list out 0x3C = 8 * ruby_count tokens
      \<and> count_list out 0x3E = 8 * ruby_count tokens
      \<and> amps_escaped out"
    by (simp add: buildRubyHTML_concat count_segments_lt count_segments_gt
        amps_escaped_segments)
  moreover have "escapeHTML (a @ 0x26 # b) = escapeHTML a @ js ''&amp;'' @ escapeHTML b"
    "escapeHTML (a @ 0x3C # b) = escapeHTML a @ js ''&lt;'' @ escapeHTML b"
    "escapeHTML (a @ 0x3E # b) = escapeHTML a @ js ''&gt;'' @ escapeHTML b"
    by (simp_all add: escapeHTML_append escapeHTML_Cons escape_unit_def)
  moreover have "buildRubyHTML [\<lparr>surface_form = js ''<script>'', reading = None\<rparr>]
       = Inr (js ''&lt;script&gt;'')"
    by (simp add: buildRubyHTML_concat escapeHTML_def escape_unit_def js_def)
  ultimately show ?thesis
    by (simp add: escapeHTML_no_lt escapeHTML_no_gt amps_escaped_escapeHTML)
qed

text \<open>
  C8. \<^verbatim>\<open>buildRubyHTML\<close> returns a string for every sequence of tokens: the one place
  where the loop could raise an error, the normaliser called on an absent reading, is
  never reached. The empty sequence gives the empty string, and a token whose surface form
  is empty adds nothing to the output. \<^verbatim>\<open>containsKanji\<close> and
  \<^verbatim>\<open>katakanaToHiragana\<close> are structural recursions over the string with no error branch.
\<close>

theorem buildRubyHTML_total:
  "(\<exists>out. buildRubyHTML tokens = Inr out)
   \<and> buildRubyHTML [] = Inr []
   \<and> containsKanji [] = False \<and> katakanaToHiragana [] = []
   \<and> (surface_form t = [] \<longrightarrow>
        token_html t = Inr [] \<and> buildRubyHTML (xs @ t # ys) = buildRubyHTML (xs @ ys))"
proof -
  have "spec_segment t = []" if "surface_form t = []"
  proof (cases t)
    case (fields surface rd)
    with that show ?thesis
      by (cases rd) (simp_all add: containsKanji_def escapeHTML_def)
  qed
  then show ?thesis
    by (simp add: buildRubyHTML_concat token_html_spec containsKanji_def katakanaToHiragana_def)
qed

theorem buildRubyHTML_total_witness:
  "surface_form \<lparr>surface_form = [], reading = Some [0x30A2]\<rparr> = []
   \<and> token_html \<lparr>surface_form = [], reading = Some [0x30A2]\<rparr> = Inr []
   \<and> buildRubyHTML
        ([\<lparr>surface_form = js ''a'', reading = None\<rparr>]
          @ \<lparr>surface_form = [], reading = Some [0x30A2]\<rparr> # [])
      = buildRubyHTML ([\<lparr>surface_form = js ''a'', reading = None\<rparr>] @ [])"
  using buildRubyHTML_total
    [of "[]" "\<lparr>surface_form = [], reading = Some [0x30A2]\<rparr>"
      "[\<lparr>surface_form = js ''a'', reading = None\<rparr>]" "[]"]
  by simp

section \<open>Tokenizer initialisation and failure\<close>

subsection \<open>What the handlers leave unchanged\<close>

lemma removeFloatingBtn_fields [simp]:
  "tokenizer (removeFloatingBtn st) = tokenizer st"
  "tokenizerLoading (removeFloatingBtn st) = tokenizerLoading st"
  "builds (removeFloatingBtn st) = builds st"
  "pending (removeFloatingBtn st) = pending st"
  "settled (removeFloatingBtn st) = settled st"
  "reactions (removeFloatingBtn st) = reactions st"
  "console (removeFloatingBtn st) = console st"
  "document_ops (removeFloatingBtn st) = document_ops st"
  "floatingBtn (removeFloatingBtn st) = None"
  by (simp_all add: removeFloatingBtn_def)

lemma catch_handler_fields [simp]:
  "tokenizer (catch_handler e st) = tokenizer st"
  "tokenizerLoading (catch_handler e st) = tokenizerLoading st"
  "builds (catch_handler e st) = builds st"
  "pending (catch_handler e st) = pending st"
  "settled (catch_handler e st) = settled st"
  "reactions (catch_handler e st) = reactions st"
  "document_ops (catch_handler e st) = document_ops st"
  "floatingBtn (catch_handler e st) = None"
  "console (catch_handler e st)
     = console st @ [Console_error (js ''[YomiMark] Annotation failed:'') e]"
  by (simp_all add: catch_handler_def)

lemma then_handler_fields:
  assumes "then_handler tokenize rng text tk st = Inr st'"
  shows "tokenizer st' = tokenizer st" "tokenizerLoading st' = tokenizerLoading st"
    "builds st' = builds st" "pending st' = pending st" "settled st' = settled st"
    "reactions st' = reactions st" "tk \<noteq> None"
  using assms
  by (auto simp: then_handler_def split: option.splits sum.splits)

lemma run_reaction_fields [simp]:
  "tokenizer (run_reaction tokenize r out st) = tokenizer st"
  "tokenizerLoading (run_reaction tokenize r out st) = tokenizerLoading st"
  "builds (run_reaction tokenize r out st) = builds st"
  "pending (run_reaction tokenize r out st) = pending st"
  "settled (run_reaction tokenize r out st) = settled st"
  "reactions (run_reaction tokenize r out st) = reactions st"
  by (auto simp: run_reaction_def then_handler_fields
      split: reaction.splits outcome.splits sum.splits)

lemma run_reaction_no_tokenizer:
  "(\<forall>h. out \<noteq> Fulfilled (Some h)) \<Longrightarrow>
     document_ops (run_reaction tokenize r out st) = document_ops st"
  by (auto simp: run_reaction_def then_handler_def
      split: reaction.splits outcome.splits sum.splits option.splits)


lemma foldl_run_reaction_fields [simp]:
  "tokenizer (foldl (\<lambda>s (m, r). run_reaction tokenize r out s) st rs) = tokenizer st"
  "tokenizerLoading (foldl (\<lambda>s (m, r). run_reaction tokenize r out s) st rs) = tokenizerLoading st"
  "builds (foldl (\<lambda>s (m, r). run_reaction tokenize r out s) st rs) = builds st"
  "pending (foldl (\<lambda>s (m, r). run_reaction tokenize r out s) st rs) = pending st"
  "settled (foldl (\<lambda>s (m, r). run_reaction tokenize r out s) st rs) = settled st"
  "reactions (foldl (\<lambda>s (m, r). run_reaction tokenize r out s) st rs) = reactions st"
  by (induction rs arbitrary: st; simp split: prod.splits)+

lemma foldl_run_reaction_no_tokenizer:
  "(\<forall>h. out \<noteq> Fulfilled (Some h)) \<Longrightarrow>
     document_ops (foldl (\<lambda>s (m, r). run_reaction tokenize r out s) st rs) = document_ops st"
  by (induction rs arbitrary: st) (simp_all add: run_reaction_no_tokenizer split: prod.splits)

lemma settle_fields [simp]:
  "tokenizer (settle tokenize n out st) = tokenizer st"
  "tokenizerLoading (settle tokenize n out st) = tokenizerLoading st"
  "builds (settle tokenize n out st) = builds st"
  "pending (settle tokenize n out st) = pending st"
  "settled (settle tokenize n out st) = settled st @ [(n, out)]"
  "reactions (settle tokenize n out st) = filter (\<lambda>(m, r). m \<noteq> n) (reactions st)"
  by (simp_all add: settle_def Let_def)

lemma settle_no_tokenizer:
  "(\<forall>h. out \<noteq> Fulfilled (Some h)) \<Longrightarrow>
     document_ops (settle tokenize n out st) = document_ops st"
  by (simp add: settle_def Let_def foldl_run_reaction_no_tokenizer)

lemma build_callback_fields [simp]:
  "tokenizer (build_callback tokenize n res st)
     = (case res of Build_error e \<Rightarrow> tokenizer st | Build_ok h \<Rightarrow> Some h)"
  "tokenizerLoading (build_callback tokenize n res st) = False"
  "builds (build_callback tokenize n res st) = builds st"
  "pending (build_callback tokenize n res st) = pending st"
  "settled (build_callback tokenize n res st)
     = settled st @ [(n, case res of Build_error e \<Rightarrow> Rejected e | Build_ok h \<Rightarrow> Fulfilled (Some h))]"
  by (simp_all add: build_callback_def Let_def split: build_result.splits)

lemma build_callback_error_document:
  "document_ops (build_callback tokenize n (Build_error e) st) = document_ops st"
  by (simp add: build_callback_def settle_no_tokenizer)

lemma initTokenizer_cases:
  "initTokenizer st =
     (if tokenizer st \<noteq> None \<or> tokenizerLoading st then (Promise_resolve (tokenizer st), st)
      else (New_promise (builds st),
            st\<lparr>tokenizerLoading := True, builds := builds st + 1,
               pending := pending st @ [builds st]\<rparr>))"
  by (simp add: initTokenizer_def Let_def)

lemma then_catch_fields [simp]:
  "tokenizer (then_catch tokenize p r st) = tokenizer st"
  "tokenizerLoading (then_catch tokenize p r st) = tokenizerLoading st"
  "builds (then_catch tokenize p r st) = builds st"
  "pending (then_catch tokenize p r st) = pending st"
  "settled (then_catch tokenize p r st) = settled st"
  by (simp_all add: then_catch_def split: promise.splits option.splits)


lemma wf_state_cong:
  assumes "tokenizer st' = tokenizer st" "tokenizerLoading st' = tokenizerLoading st"
    "builds st' = builds st" "pending st' = pending st" "settled st' = settled st"
  shows "wf_state st' = wf_state st"
  by (simp add: wf_state_def assms)

lemma wf_initTokenizer: "wf_state st \<Longrightarrow> wf_state (snd (initTokenizer st))"
  by (auto simp: initTokenizer_cases wf_state_def split: if_splits)

lemma wf_init_then:
  "wf_state st \<Longrightarrow>
     wf_state (case initTokenizer st of (p, st1) \<Rightarrow> then_catch tokenize p r st1)"
proof -
  assume "wf_state st"
  then have "wf_state (snd (initTokenizer st))" by (rule wf_initTokenizer)
  moreover have "wf_state (then_catch tokenize (fst (initTokenizer st)) r (snd (initTokenizer st)))
      = wf_state (snd (initTokenizer st))"
    by (rule wf_state_cong) simp_all
  ultimately show ?thesis by (simp add: case_prod_beta)
qed

lemma then_catch_document:
  assumes "\<forall>h. p \<noteq> Promise_resolve (Some h)"
    and "\<forall>out\<in>snd ` set (settled st). \<forall>h. out \<noteq> Fulfilled (Some h)"
  shows "document_ops (then_catch tokenize p r st) = document_ops st"
proof (cases p)
  case (Promise_resolve v)
  with assms(1) have "\<forall>h. Fulfilled v \<noteq> Fulfilled (Some h)" by auto
  then show ?thesis
    by (simp add: then_catch_def Promise_resolve run_reaction_no_tokenizer)
next
  case (New_promise n)
  show ?thesis
  proof (cases "map_of (settled st) n")
    case None
    then show ?thesis by (simp add: then_catch_def New_promise)
  next
    case (Some out)
    then have "out \<in> snd ` set (settled st)"
      by (force dest: map_of_SomeD)
    with assms(2) have "\<forall>h. out \<noteq> Fulfilled (Some h)" by blast
    then show ?thesis
      by (simp add: then_catch_def New_promise Some run_reaction_no_tokenizer)
  qed
qed

lemma then_catch_fresh:
  assumes "\<forall>m\<in>fst ` set (settled st). m < n"
  shows "then_catch tokenize (New_promise n) r st = st\<lparr>reactions := reactions st @ [(n, r)]\<rparr>"
proof -
  have "map_of (settled st) n = None"
    using assms by (force simp: map_of_eq_None_iff)
  then show ?thesis by (simp add: then_catch_def)
qed

lemma init_then_document:
  assumes "wf_state st" "tokenizer st = None"
  shows "document_ops (case initTokenizer st of (p, st1) \<Rightarrow> then_catch tokenize p r st1)
     = document_ops st"
proof (cases "tokenizerLoading st")
  case True
  with assms(2) have "initTokenizer st = (Promise_resolve None, st)"
    by (simp add: initTokenizer_cases)
  then show ?thesis
    by (simp add: then_catch_def run_reaction_no_tokenizer)
next
  case False
  let ?st1 = "st\<lparr>tokenizerLoading := True, builds := builds st + 1,
               pending := pending st @ [builds st]\<rparr>"
  from False assms(2) have i: "initTokenizer st = (New_promise (builds st), ?st1)"
    by (simp add: initTokenizer_cases)
  have "\<forall>m\<in>fst ` set (settled ?st1). m < builds st"
    using assms(1) by (simp add: wf_state_def)
  then have "then_catch tokenize (New_promise (builds st)) r ?st1
      = ?st1\<lparr>reactions := reactions ?st1 @ [(builds st, r)]\<rparr>"
    by (rule then_catch_fresh)
  then show ?thesis by (simp add: i)
qed


lemma initTokenizer_fields [simp]:
  "tokenizer (snd (initTokenizer st)) = tokenizer st"
  "settled (snd (initTokenizer st)) = settled st"
  "document_ops (snd (initTokenizer st)) = document_ops st"
  "reactions (snd (initTokenizer st)) = reactions st"
  by (simp_all add: initTokenizer_cases)

lemma annotateSelection_cases:
  "snd (annotateSelection tokenize sel st) = st
   \<or> (\<exists>st1 r. tokenizer st1 = tokenizer st \<and> tokenizerLoading st1 = tokenizerLoading st
        \<and> builds st1 = builds st \<and> pending st1 = pending st \<and> settled st1 = settled st
        \<and> document_ops st1 = document_ops st
        \<and> snd (annotateSelection tokenize sel st)
            = (case initTokenizer st1 of (p, st2) \<Rightarrow> then_catch tokenize p r st2))"
proof (cases sel)
  case None
  then show ?thesis by (simp add: annotateSelection_def)
next
  case (Some s)
  show ?thesis
  proof (cases "rangeCount s = 0 \<or> trim (toString s) = []")
    case True
    then show ?thesis by (auto simp: annotateSelection_def Some Let_def)
  next
    case False
    let ?st1 = "case floatingBtn st of None \<Rightarrow> st
      | Some b \<Rightarrow> st\<lparr>floatingBtn := Some (b\<lparr>loading := True, textContent := [0x23F3]\<rparr>)\<rparr>"
    have a: "snd (annotateSelection tokenize sel st)
        = (case initTokenizer ?st1 of (p, st2) \<Rightarrow>
             then_catch tokenize p (Annotate_handlers (getRangeAt0 s) (trim (toString s))) st2)"
      using False by (simp add: annotateSelection_def Some Let_def case_prod_beta)
    have b: "tokenizer ?st1 = tokenizer st" "tokenizerLoading ?st1 = tokenizerLoading st"
      "builds ?st1 = builds st" "pending ?st1 = pending st" "settled ?st1 = settled st"
      "document_ops ?st1 = document_ops st"
      by (simp_all split: option.splits)
    show ?thesis
      using a b by blast
  qed
qed

lemma annotateSelection_returns: "fst (annotateSelection tokenize sel st) = Returns_undefined"
  by (simp add: annotateSelection_def Let_def case_prod_beta split: option.splits)

lemma wf_annotateSelection:
  assumes "wf_state st"
  shows "wf_state (snd (annotateSelection tokenize sel st))"
  using annotateSelection_cases [of tokenize sel st]
proof
  assume "snd (annotateSelection tokenize sel st) = st"
  with assms show ?thesis by simp
next
  assume "\<exists>st1 r. tokenizer st1 = tokenizer st \<and> tokenizerLoading st1 = tokenizerLoading st
        \<and> builds st1 = builds st \<and> pending st1 = pending st \<and> settled st1 = settled st
        \<and> document_ops st1 = document_ops st
        \<and> snd (annotateSelection tokenize sel st)
            = (case initTokenizer st1 of (p, st2) \<Rightarrow> then_catch tokenize p r st2)"
  then obtain st1 r where f: "tokenizer st1 = tokenizer st"
      "tokenizerLoading st1 = tokenizerLoading st" "builds st1 = builds st"
      "pending st1 = pending st" "settled st1 = settled st"
    and e: "snd (annotateSelection tokenize sel st)
            = (case initTokenizer st1 of (p, st2) \<Rightarrow> then_catch tokenize p r st2)"
    by blast
  from f have "wf_state st1 = wf_state st" by (rule wf_state_cong)
  with assms have "wf_state st1" by simp
  then show ?thesis unfolding e by (rule wf_init_then)
qed

lemma annotateSelection_document:
  assumes "wf_state st" "tokenizer st = None"
  shows "document_ops (snd (annotateSelection tokenize sel st)) = document_ops st"
  using annotateSelection_cases [of tokenize sel st]
proof
  assume "snd (annotateSelection tokenize sel st) = st"
  then show ?thesis by simp
next
  assume "\<exists>st1 r. tokenizer st1 = tokenizer st \<and> tokenizerLoading st1 = tokenizerLoading st
        \<and> builds st1 = builds st \<and> pending st1 = pending st \<and> settled st1 = settled st
        \<and> document_ops st1 = document_ops st
        \<and> snd (annotateSelection tokenize sel st)
            = (case initTokenizer st1 of (p, st2) \<Rightarrow> then_catch tokenize p r st2)"
  then obtain st1 r where f: "tokenizer st1 = tokenizer st"
      "tokenizerLoading st1 = tokenizerLoading st" "builds st1 = builds st"
      "pending st1 = pending st" "settled st1 = settled st"
    and d: "document_ops st1 = document_ops st"
    and e: "snd (annotateSelection tokenize sel st)
            = (case initTokenizer st1 of (p, st2) \<Rightarrow> then_catch tokenize p r st2)"
    by blast
  from f have "wf_state st1 = wf_state st" by (rule wf_state_cong)
  with assms have "wf_state st1" "tokenizer st1 = None" by (simp_all add: f)
  then show ?thesis unfolding e by (simp add: init_then_document d)
qed

lemma wf_build:
  assumes "wf_state st" "n \<in> set (pending st)"
  shows "wf_state (build_callback tokenize n res (st\<lparr>pending := removeAll n (pending st)\<rparr>))"
proof -
  from assms have l: "tokenizerLoading st" and p: "pending st = [n]" and b: "n < builds st"
    by (auto simp: wf_state_def split: if_splits)
  from assms(1) have "\<forall>m\<in>fst ` set (settled st). m < builds st"
    by (simp add: wf_state_def)
  then show ?thesis
    by (simp add: wf_state_def p b)
qed

lemma wf_step: "wf_state st \<Longrightarrow> wf_state (step tokenize e st)"
proof (cases e)
  case Ev_preload
  assume "wf_state st"
  then show ?thesis
    unfolding Ev_preload step.simps Let_def by (rule wf_init_then)
next
  case (Ev_annotate sel)
  assume "wf_state st"
  then show ?thesis
    unfolding Ev_annotate step.simps by (rule wf_annotateSelection)
next
  case (Ev_build n res)
  assume "wf_state st"
  then show ?thesis
    by (simp add: Ev_build wf_build)
next
  case Ev_create_button
  assume "wf_state st"
  then show ?thesis
    by (simp add: Ev_create_button wf_state_def createFloatingBtn_def removeFloatingBtn_def)
next
  case Ev_remove_button
  assume "wf_state st"
  then show ?thesis
    by (simp add: Ev_remove_button wf_state_def removeFloatingBtn_def)
qed

lemma run_snoc: "run tokenize (evs @ [e]) st = step tokenize e (run tokenize evs st)"
  by (simp add: run_def)

lemma wf_initial: "wf_state initial_state"
  by (simp add: wf_state_def initial_state_def)

lemma wf_run: "wf_state (run tokenize evs initial_state)"
proof (induction evs rule: rev_induct)
  case Nil
  then show ?case by (simp add: run_def wf_initial)
next
  case (snoc e evs)
  then show ?case by (simp add: run_snoc wf_step)
qed


lemma never_loaded_init_then:
  assumes "never_loaded st"
  shows "never_loaded (case initTokenizer st of (p, st1) \<Rightarrow> then_catch tokenize p r st1)"
proof -
  let ?p = "fst (initTokenizer st)" and ?st1 = "snd (initTokenizer st)"
  from assms have t: "tokenizer st = None" and d: "document_ops st = []"
    and s: "\<forall>out\<in>snd ` set (settled st). \<exists>e. out = Rejected e"
    by (simp_all add: never_loaded_def)
  from t have "\<forall>h. ?p \<noteq> Promise_resolve (Some h)"
    by (simp add: initTokenizer_cases)
  moreover from s have "\<forall>out\<in>snd ` set (settled ?st1). \<forall>h. out \<noteq> Fulfilled (Some h)"
    by auto
  ultimately have "document_ops (then_catch tokenize ?p r ?st1) = document_ops ?st1"
    by (rule then_catch_document)
  with t d s show ?thesis
    by (simp add: never_loaded_def case_prod_beta)
qed

lemma never_loaded_cong:
  assumes "tokenizer st' = tokenizer st" "settled st' = settled st"
    "document_ops st' = document_ops st"
  shows "never_loaded st' = never_loaded st"
  by (simp add: never_loaded_def assms)

lemma never_loaded_annotateSelection:
  assumes "never_loaded st"
  shows "never_loaded (snd (annotateSelection tokenize sel st))"
  using annotateSelection_cases [of tokenize sel st]
proof
  assume "snd (annotateSelection tokenize sel st) = st"
  with assms show ?thesis by simp
next
  assume "\<exists>st1 r. tokenizer st1 = tokenizer st \<and> tokenizerLoading st1 = tokenizerLoading st
        \<and> builds st1 = builds st \<and> pending st1 = pending st \<and> settled st1 = settled st
        \<and> document_ops st1 = document_ops st
        \<and> snd (annotateSelection tokenize sel st)
            = (case initTokenizer st1 of (p, st2) \<Rightarrow> then_catch tokenize p r st2)"
  then obtain st1 r where f: "tokenizer st1 = tokenizer st" "settled st1 = settled st"
      "document_ops st1 = document_ops st"
    and e: "snd (annotateSelection tokenize sel st)
            = (case initTokenizer st1 of (p, st2) \<Rightarrow> then_catch tokenize p r st2)"
    by blast
  from f have "never_loaded st1 = never_loaded st" by (rule never_loaded_cong)
  with assms have "never_loaded st1" by simp
  then show ?thesis unfolding e by (rule never_loaded_init_then)
qed

lemma never_loaded_step:
  assumes "never_loaded st" "\<not> is_build_ok e"
  shows "never_loaded (step tokenize e st)"
proof (cases e)
  case Ev_preload
  from assms(1) show ?thesis
    unfolding Ev_preload step.simps Let_def by (rule never_loaded_init_then)
next
  case (Ev_annotate sel)
  from assms(1) show ?thesis
    unfolding Ev_annotate step.simps by (rule never_loaded_annotateSelection)
next
  case (Ev_build n res)
  with assms(2) obtain err where res: "res = Build_error err"
    by (cases res) simp_all
  from assms(1) show ?thesis
    by (simp add: Ev_build res never_loaded_def build_callback_error_document)
next
  case Ev_create_button
  from assms(1) show ?thesis
    by (simp add: Ev_create_button never_loaded_def createFloatingBtn_def removeFloatingBtn_def)
next
  case Ev_remove_button
  from assms(1) show ?thesis
    by (simp add: Ev_remove_button never_loaded_def removeFloatingBtn_def)
qed

lemma never_loaded_run:
  "\<forall>e\<in>set evs. \<not> is_build_ok e \<Longrightarrow> never_loaded (run tokenize evs initial_state)"
proof (induction evs rule: rev_induct)
  case Nil
  then show ?case by (simp add: run_def never_loaded_def initial_state_def)
next
  case (snoc e evs)
  then show ?case by (simp add: run_snoc never_loaded_step)
qed

text \<open>After a rejection has reached the \<^verbatim>\<open>catch\<close> function the button is gone and the
  error is on the console.\<close>

lemma caught_kept:
  assumes "floatingBtn st = None" "x \<in> set (console st)"
  shows "floatingBtn (run_reaction tokenize r (Rejected e) st) = None
    \<and> x \<in> set (console (run_reaction tokenize r (Rejected e) st))"
  using assms by (cases r) (simp_all add: run_reaction_def)

lemma caught_kept_foldl:
  assumes "floatingBtn st = None" "x \<in> set (console st)"
  shows "floatingBtn (foldl (\<lambda>s (m, r). run_reaction tokenize r (Rejected e) s) st rs) = None
    \<and> x \<in> set (console (foldl (\<lambda>s (m, r). run_reaction tokenize r (Rejected e) s) st rs))"
  using assms
proof (induction rs arbitrary: st)
  case Nil
  then show ?case by simp
next
  case (Cons a rs)
  obtain m r where a: "a = (m, r)" by (cases a)
  from Cons.prems caught_kept [of st x tokenize r e]
  have "floatingBtn (run_reaction tokenize r (Rejected e) st) = None"
    "x \<in> set (console (run_reaction tokenize r (Rejected e) st))"
    by simp_all
  then show ?case
    using Cons.IH [of "run_reaction tokenize r (Rejected e) st"] by (simp add: a)
qed

lemma caught_foldl:
  assumes "(n, Annotate_handlers rng text) \<in> set rs"
  shows "floatingBtn (foldl (\<lambda>s (m, r). run_reaction tokenize r (Rejected e) s) st rs) = None
    \<and> Console_error (js ''[YomiMark] Annotation failed:'') e
        \<in> set (console (foldl (\<lambda>s (m, r). run_reaction tokenize r (Rejected e) s) st rs))"
  using assms
proof (induction rs arbitrary: st)
  case Nil
  then show ?case by simp
next
  case (Cons a rs)
  obtain m r where a: "a = (m, r)" by (cases a)
  show ?case
  proof (cases "a = (n, Annotate_handlers rng text)")
    case True
    let ?st = "run_reaction tokenize (Annotate_handlers rng text) (Rejected e) st"
    have "floatingBtn ?st = None"
      "Console_error (js ''[YomiMark] Annotation failed:'') e \<in> set (console ?st)"
      by (simp_all add: run_reaction_def)
    then show ?thesis
      using caught_kept_foldl [of ?st _ tokenize e rs] by (simp add: True)
  next
    case False
    with Cons.prems have "(n, Annotate_handlers rng text) \<in> set rs" by simp
    then show ?thesis
      using Cons.IH [of "run_reaction tokenize r (Rejected e) st"] by (simp add: a)
  qed
qed

lemma build_error_caught:
  assumes "(n, Annotate_handlers rng text) \<in> set (reactions st)"
  shows "floatingBtn (build_callback tokenize n (Build_error e) st) = None
    \<and> Console_error (js ''[YomiMark] Annotation failed:'') e
        \<in> set (console (build_callback tokenize n (Build_error e) st))
    \<and> (n, Annotate_handlers rng text)
        \<notin> set (reactions (build_callback tokenize n (Build_error e) st))"
proof -
  let ?st1 = "st\<lparr>tokenizerLoading := False,
     console := console st @ [Console_error (js ''[YomiMark] Failed to load tokenizer:'') e]\<rparr>"
  let ?st2 = "?st1\<lparr>settled := settled ?st1 @ [(n, Rejected e)],
                    reactions := filter (\<lambda>(m, r). m \<noteq> n) (reactions ?st1)\<rparr>"
  have "(n, Annotate_handlers rng text) \<in> set (filter (\<lambda>(m, r). m = n) (reactions ?st1))"
    using assms by simp
  then have "floatingBtn (foldl (\<lambda>s (m, r). run_reaction tokenize r (Rejected e) s) ?st2
         (filter (\<lambda>(m, r). m = n) (reactions ?st1))) = None
    \<and> Console_error (js ''[YomiMark] Annotation failed:'') e
        \<in> set (console (foldl (\<lambda>s (m, r). run_reaction tokenize r (Rejected e) s) ?st2
         (filter (\<lambda>(m, r). m = n) (reactions ?st1))))"
    by (rule caught_foldl)
  moreover have "build_callback tokenize n (Build_error e) st
      = foldl (\<lambda>s (m, r). run_reaction tokenize r (Rejected e) s) ?st2
         (filter (\<lambda>(m, r). m = n) (reactions ?st1))"
    by (simp add: build_callback_def settle_def Let_def)
  moreover have "(n, Annotate_handlers rng text)
        \<notin> set (reactions (build_callback tokenize n (Build_error e) st))"
    by (simp add: build_callback_def)
  ultimately show ?thesis by simp
qed

subsection \<open>A call that starts the load, and the events while it waits\<close>

lemma initTokenizer_loading:
  "tokenizerLoading st \<Longrightarrow> initTokenizer st = (Promise_resolve (tokenizer st), st)"
  by (simp add: initTokenizer_cases)

lemma then_catch_reactions_mono:
  "x \<in> set (reactions st) \<Longrightarrow> x \<in> set (reactions (then_catch tokenize p r st))"
  by (auto simp: then_catch_def split: promise.splits option.splits)

lemma annotateSelection_reactions_mono:
  assumes "x \<in> set (reactions st)"
  shows "x \<in> set (reactions (snd (annotateSelection tokenize sel st)))"
proof (cases sel)
  case None
  with assms show ?thesis by (simp add: annotateSelection_def)
next
  case (Some s)
  show ?thesis
  proof (cases "rangeCount s = 0 \<or> trim (toString s) = []")
    case True
    with assms show ?thesis by (auto simp: annotateSelection_def Some Let_def)
  next
    case False
    let ?st1 = "case floatingBtn st of None \<Rightarrow> st
      | Some b \<Rightarrow> st\<lparr>floatingBtn := Some (b\<lparr>loading := True, textContent := [0x23F3]\<rparr>)\<rparr>"
    have a: "snd (annotateSelection tokenize sel st)
        = then_catch tokenize (fst (initTokenizer ?st1))
            (Annotate_handlers (getRangeAt0 s) (trim (toString s))) (snd (initTokenizer ?st1))"
      using False by (simp add: annotateSelection_def Some Let_def case_prod_beta)
    have "reactions ?st1 = reactions st" by (simp split: option.splits)
    with assms have "x \<in> set (reactions (snd (initTokenizer ?st1)))" by simp
    then show ?thesis unfolding a by (rule then_catch_reactions_mono)
  qed
qed

lemma annotateSelection_pending_loading:
  assumes "tokenizerLoading st"
  shows "pending (snd (annotateSelection tokenize sel st)) = pending st"
  using annotateSelection_cases [of tokenize sel st]
proof
  assume "snd (annotateSelection tokenize sel st) = st"
  then show ?thesis by simp
next
  assume "\<exists>st1 r. tokenizer st1 = tokenizer st \<and> tokenizerLoading st1 = tokenizerLoading st
        \<and> builds st1 = builds st \<and> pending st1 = pending st \<and> settled st1 = settled st
        \<and> document_ops st1 = document_ops st
        \<and> snd (annotateSelection tokenize sel st)
            = (case initTokenizer st1 of (p, st2) \<Rightarrow> then_catch tokenize p r st2)"
  then obtain st1 r where l: "tokenizerLoading st1 = tokenizerLoading st"
    and p: "pending st1 = pending st"
    and e: "snd (annotateSelection tokenize sel st)
            = (case initTokenizer st1 of (p, st2) \<Rightarrow> then_catch tokenize p r st2)"
    by blast
  from l assms have "initTokenizer st1 = (Promise_resolve (tokenizer st1), st1)"
    by (simp add: initTokenizer_loading)
  then show ?thesis unfolding e by (simp add: p)
qed

lemma annotateSelection_starts_load:
  assumes "wf_state st" "tokenizer st = None" "\<not> tokenizerLoading st"
    and "rangeCount s \<noteq> 0" "trim (toString s) \<noteq> []"
  shows "pending (snd (annotateSelection tokenize (Some s) st)) = [builds st]"
    and "(builds st, Annotate_handlers (getRangeAt0 s) (trim (toString s)))
      \<in> set (reactions (snd (annotateSelection tokenize (Some s) st)))"
proof -
  let ?st1 = "case floatingBtn st of None \<Rightarrow> st
      | Some b \<Rightarrow> st\<lparr>floatingBtn := Some (b\<lparr>loading := True, textContent := [0x23F3]\<rparr>)\<rparr>"
  let ?r = "Annotate_handlers (getRangeAt0 s) (trim (toString s))"
  have f: "tokenizer ?st1 = None" "\<not> tokenizerLoading ?st1" "builds ?st1 = builds st"
    "pending ?st1 = []" "settled ?st1 = settled st"
    using assms(1-3) by (simp_all add: wf_state_def split: option.splits)
  let ?st2 = "?st1\<lparr>tokenizerLoading := True, builds := builds st + 1,
               pending := [builds st]\<rparr>"
  have i: "initTokenizer ?st1 = (New_promise (builds st), ?st2)"
    using f by (simp add: initTokenizer_cases)
  have "\<forall>m\<in>fst ` set (settled ?st2). m < builds st"
    using assms(1) f by (simp add: wf_state_def)
  then have t: "then_catch tokenize (New_promise (builds st)) ?r ?st2
      = ?st2\<lparr>reactions := reactions ?st2 @ [(builds st, ?r)]\<rparr>"
    by (rule then_catch_fresh)
  have a0: "snd (annotateSelection tokenize (Some s) st)
      = then_catch tokenize (fst (initTokenizer ?st1)) ?r (snd (initTokenizer ?st1))"
    using assms(4,5) by (simp add: annotateSelection_def Let_def case_prod_beta)
  have a: "snd (annotateSelection tokenize (Some s) st)
      = ?st2\<lparr>reactions := reactions ?st2 @ [(builds st, ?r)]\<rparr>"
    by (simp only: a0 i fst_conv snd_conv t)
  show "pending (snd (annotateSelection tokenize (Some s) st)) = [builds st]"
    unfolding a by simp
  show "(builds st, ?r) \<in> set (reactions (snd (annotateSelection tokenize (Some s) st)))"
    unfolding a by simp
qed

lemma waiting_step:
  assumes "wf_state st" "n \<in> set (pending st)" "x \<in> set (reactions st)" "fst x = n"
    and "\<not> is_build_of n e"
  shows "wf_state (step tokenize e st) \<and> n \<in> set (pending (step tokenize e st))
    \<and> x \<in> set (reactions (step tokenize e st))
    \<and> document_ops (step tokenize e st) = document_ops st"
proof -
  from assms(1,2) have l: "tokenizerLoading st" and t: "tokenizer st = None"
    and p: "pending st = [n]"
    by (auto simp: wf_state_def split: if_splits)
  have wf: "wf_state (step tokenize e st)" using assms(1) by (rule wf_step)
  show ?thesis
  proof (cases e)
    case Ev_preload
    from l have "step tokenize e st = st"
      by (simp add: Ev_preload initTokenizer_loading then_catch_def run_reaction_def)
    with assms show ?thesis by simp
  next
    case (Ev_annotate sel)
    have "pending (step tokenize e st) = pending st"
      using l by (simp add: Ev_annotate annotateSelection_pending_loading)
    moreover have "x \<in> set (reactions (step tokenize e st))"
      using assms(3) by (simp add: Ev_annotate annotateSelection_reactions_mono)
    moreover have "document_ops (step tokenize e st) = document_ops st"
      using assms(1) t by (simp add: Ev_annotate annotateSelection_document)
    ultimately show ?thesis using wf assms(2) by simp
  next
    case (Ev_build m res)
    with assms(5) have "m \<noteq> n" by simp
    then have "step tokenize e st = st" by (simp add: Ev_build p)
    with assms show ?thesis by simp
  next
    case Ev_create_button
    with wf assms show ?thesis
      by (simp add: createFloatingBtn_def removeFloatingBtn_def)
  next
    case Ev_remove_button
    with wf assms show ?thesis
      by (simp add: removeFloatingBtn_def)
  qed
qed

lemma waiting_run:
  assumes "wf_state st" "n \<in> set (pending st)" "x \<in> set (reactions st)" "fst x = n"
    and "\<forall>e\<in>set evs. \<not> is_build_of n e"
  shows "wf_state (run tokenize evs st) \<and> n \<in> set (pending (run tokenize evs st))
    \<and> x \<in> set (reactions (run tokenize evs st))
    \<and> document_ops (run tokenize evs st) = document_ops st"
  using assms(5)
proof (induction evs rule: rev_induct)
  case Nil
  with assms show ?case by (simp add: run_def)
next
  case (snoc e evs)
  then have ih: "wf_state (run tokenize evs st)" "n \<in> set (pending (run tokenize evs st))"
    "x \<in> set (reactions (run tokenize evs st))"
    "document_ops (run tokenize evs st) = document_ops st"
    and e: "\<not> is_build_of n e"
    by simp_all
  from waiting_step [OF ih(1) ih(2) ih(3) assms(4) e, of tokenize] ih(4)
  show ?case by (simp add: run_snoc)
qed

subsection \<open>A failed load\<close>

text \<open>
  C10. When a load that is in progress completes with an error, the state is the
  uninitialised one again: the tokenizer is still \<^verbatim>\<open>null\<close> (it was \<^verbatim>\<open>null\<close>
  throughout the load), the loading flag is cleared and no build is pending. The next call
  of \<^verbatim>\<open>initTokenizer\<close> therefore starts a new build and returns its pending promise.
  The load is any pending build \<open>n\<close> of any state a run of the script reaches.
\<close>

theorem initTokenizer_failure_resets:
  assumes "st = run tokenize evs initial_state" and "n \<in> set (pending st)"
  shows "tokenizer st = None
    \<and> tokenizer (step tokenize (Ev_build n (Build_error err)) st) = None
    \<and> \<not> tokenizerLoading (step tokenize (Ev_build n (Build_error err)) st)
    \<and> pending (step tokenize (Ev_build n (Build_error err)) st) = []
    \<and> fst (initTokenizer (step tokenize (Ev_build n (Build_error err)) st))
        = New_promise (builds st)
    \<and> tokenizerLoading (snd (initTokenizer (step tokenize (Ev_build n (Build_error err)) st)))
    \<and> builds (snd (initTokenizer (step tokenize (Ev_build n (Build_error err)) st)))
        = builds st + 1
    \<and> pending (snd (initTokenizer (step tokenize (Ev_build n (Build_error err)) st)))
        = [builds st]"
proof -
  have "wf_state st" unfolding assms(1) by (rule wf_run)
  with assms(2) have t: "tokenizer st = None" and p: "pending st = [n]"
    by (auto simp: wf_state_def split: if_splits)
  let ?st' = "step tokenize (Ev_build n (Build_error err)) st"
  have f: "tokenizer ?st' = None" "\<not> tokenizerLoading ?st'" "pending ?st' = []"
    "builds ?st' = builds st"
    by (simp_all add: p t)
  then show ?thesis
    by (simp add: initTokenizer_cases t)
qed

theorem initTokenizer_failure_resets_witness:
  "0 \<in> set (pending (run example_tokenize [Ev_preload] initial_state))
   \<and> tokenizer (step example_tokenize (Ev_build 0 (Build_error (LoadError 0)))
        (run example_tokenize [Ev_preload] initial_state)) = None
   \<and> \<not> tokenizerLoading (step example_tokenize (Ev_build 0 (Build_error (LoadError 0)))
        (run example_tokenize [Ev_preload] initial_state))
   \<and> fst (initTokenizer (step example_tokenize (Ev_build 0 (Build_error (LoadError 0)))
        (run example_tokenize [Ev_preload] initial_state))) = New_promise 1"
proof -
  have h: "0 \<in> set (pending (run example_tokenize [Ev_preload] initial_state))"
    by (simp add: run_def initTokenizer_def then_catch_def initial_state_def)
  have b: "builds (run example_tokenize [Ev_preload] initial_state) = 1"
    by (simp add: run_def initTokenizer_def then_catch_def initial_state_def)
  note r = initTokenizer_failure_resets [OF refl h, of "LoadError 0", unfolded b]
  from h r show ?thesis by blast
qed

subsection \<open>A second call while the load is in progress\<close>

text \<open>
  C2. Two calls of \<^verbatim>\<open>initTokenizer\<close> from the initial state, the second before the
  build of the first has finished. One build is started. The first caller holds the
  promise of that build; the second holds \<^verbatim>\<open>Promise.resolve(tokenizer)\<close> with the
  variable still \<^verbatim>\<open>null\<close>, so it is fulfilled with \<^verbatim>\<open>null\<close> at once, whether the
  build later yields the tokenizer or an error. The two callers do not receive the same
  result. In a run of the page, with the preload as first caller and a press of the button
  as second: the \<^verbatim>\<open>then\<close> function of \<^verbatim>\<open>annotateSelection\<close> calls
  \<^verbatim>\<open>tokenize\<close> on \<^verbatim>\<open>null\<close>, the TypeError is logged as a failed annotation, and the
  page stays unannotated although the load succeeds.
\<close>

theorem initTokenizer_while_loading_resolves_null:
  "fst (initTokenizer initial_state) = New_promise 0
   \<and> fst (initTokenizer (snd (initTokenizer initial_state))) = Promise_resolve None
   \<and> builds (snd (initTokenizer (snd (initTokenizer initial_state)))) = 1
   \<and> promise_outcome
        (step tokenize (Ev_build 0 (Build_ok (Tokenizer 1)))
          (snd (initTokenizer (snd (initTokenizer initial_state)))))
        (New_promise 0) = Some (Fulfilled (Some (Tokenizer 1)))
   \<and> promise_outcome
        (step tokenize (Ev_build 0 (Build_ok (Tokenizer 1)))
          (snd (initTokenizer (snd (initTokenizer initial_state)))))
        (Promise_resolve None) = Some (Fulfilled None)
   \<and> promise_outcome
        (step tokenize (Ev_build 0 (Build_error (LoadError 0)))
          (snd (initTokenizer (snd (initTokenizer initial_state)))))
        (New_promise 0) = Some (Rejected (LoadError 0))
   \<and> promise_outcome
        (step tokenize (Ev_build 0 (Build_error (LoadError 0)))
          (snd (initTokenizer (snd (initTokenizer initial_state)))))
        (Promise_resolve None) = Some (Fulfilled None)
   \<and> console (run example_tokenize
        [Ev_preload, Ev_annotate (Some example_selection), Ev_build 0 (Build_ok (Tokenizer 1))]
        initial_state)
     = [Console_log (js ''[YomiMark] Content script loaded''),
        Console_error (js ''[YomiMark] Annotation failed:'') TypeError,
        Console_log (js ''[YomiMark] Tokenizer ready'')]
   \<and> document_ops (run example_tokenize
        [Ev_preload, Ev_annotate (Some example_selection), Ev_build 0 (Build_ok (Tokenizer 1))]
        initial_state) = []"
proof -
  have "console (run example_tokenize
        [Ev_preload, Ev_annotate (Some example_selection), Ev_build 0 (Build_ok (Tokenizer 1))]
        initial_state)
     = [Console_log (js ''[YomiMark] Content script loaded''),
        Console_error (js ''[YomiMark] Annotation failed:'') TypeError,
        Console_log (js ''[YomiMark] Tokenizer ready'')]
   \<and> document_ops (run example_tokenize
        [Ev_preload, Ev_annotate (Some example_selection), Ev_build 0 (Build_ok (Tokenizer 1))]
        initial_state) = []"
    by (simp add: run_def annotateSelection_def example_selection_def initTokenizer_def
        then_catch_def run_reaction_def then_handler_def catch_handler_def
        removeFloatingBtn_def build_callback_def settle_def initial_state_def trim_def
        is_white_space_def Let_def)
  then show ?thesis
    by (simp add: initTokenizer_cases initial_state_def promise_outcome_def)
qed

theorem initTokenizer_while_loading_resolves_null_witness:
  "promise_outcome
     (step example_tokenize (Ev_build 0 (Build_ok (Tokenizer 1)))
       (snd (initTokenizer (snd (initTokenizer initial_state)))))
     (fst (initTokenizer initial_state))
   \<noteq> promise_outcome
     (step example_tokenize (Ev_build 0 (Build_ok (Tokenizer 1)))
       (snd (initTokenizer (snd (initTokenizer initial_state)))))
     (fst (initTokenizer (snd (initTokenizer initial_state))))"
  using initTokenizer_while_loading_resolves_null [of example_tokenize] by simp

subsection \<open>\<^verbatim>\<open>annotateSelection\<close> when initialisation fails\<close>

text \<open>For comparison, the same call followed by a successful load annotates the page.\<close>

lemma example_success:
  "document_ops (run example_tokenize
      [Ev_annotate (Some example_selection), Ev_build 0 (Build_ok (Tokenizer 1))]
      initial_state)
   = [DeleteContents 0,
      InsertNode 0 (ruby_pairing [0x6F22, 0x5B57] [0x304B, 0x3093, 0x3058]),
      RemoveAllRanges]"
  by (simp add: run_def annotateSelection_def example_selection_def initTokenizer_def
      then_catch_def run_reaction_def then_handler_def removeFloatingBtn_def
      build_callback_def settle_def initial_state_def trim_def is_white_space_def Let_def
      example_tokenize_def buildRubyHTML_concat containsKanji_def KANJI_REGEX_def
      katakanaToHiragana_map kana_unit_def KATAKANA_REGEX_def escapeHTML_def escape_unit_def)

text \<open>
  C6 as stated says that \<^verbatim>\<open>annotateSelection\<close> surfaces a failed initialisation to
  its caller; it does not. On the initial state with the example selection the call starts the load
  and returns \<^verbatim>\<open>undefined\<close>; it does not raise. When the load then fails with an error,
  the rejection goes to the function's own \<^verbatim>\<open>catch\<close> handler: the two console entries
  are all that reports it, and the caller has received nothing.
\<close>

theorem annotateSelection_failure_not_surfaced:
  "fst (annotateSelection example_tokenize (Some example_selection) initial_state)
     = Returns_undefined
   \<and> fst (annotateSelection example_tokenize (Some example_selection) initial_state)
     \<noteq> Throws (LoadError 0)
   \<and> console (step example_tokenize (Ev_build 0 (Build_error (LoadError 0)))
        (snd (annotateSelection example_tokenize (Some example_selection) initial_state)))
     = [Console_log (js ''[YomiMark] Content script loaded''),
        Console_error (js ''[YomiMark] Failed to load tokenizer:'') (LoadError 0),
        Console_error (js ''[YomiMark] Annotation failed:'') (LoadError 0)]"
proof -
  have a: "annotateSelection example_tokenize (Some example_selection) initial_state
    = (Returns_undefined,
       \<lparr>tokenizer = None, tokenizerLoading = True, floatingBtn = None, builds = 1,
        pending = [0], reactions = [(0, Annotate_handlers 0 [0x6F22, 0x5B57])], settled = [],
        console = [Console_log (js ''[YomiMark] Content script loaded'')],
        document_ops = []\<rparr>)"
    by (simp add: annotateSelection_def example_selection_def initTokenizer_def then_catch_def
        initial_state_def trim_def is_white_space_def Let_def)
  show ?thesis
    unfolding a
    by (simp add: build_callback_def settle_def run_reaction_def catch_handler_def
        removeFloatingBtn_def Let_def)
qed

text \<open>
  C6, amended. If tokenizer initialisation fails, \<^verbatim>\<open>annotateSelection\<close> produces no
  partial output, and the failure is not passed to its caller. For every state \<open>st\<close>
  that a run reaches:
  \<^item> the call returns \<^verbatim>\<open>undefined\<close>;
  \<^item> a call made while there is no tokenizer leaves the page as it is;
  \<^item> a build that completes with an error leaves the page as it is;
  \<^item> as long as no build has succeeded, nothing has been deleted from or inserted into
    the page;
  \<^item> when the call itself starts the load (no tokenizer, no load in progress, a selection
    with a range and non-blank text), then after any later events other than the end of
    that build the build is still pending, and when it completes with an error the page
    is as it was before the call, the error is logged as
    \<^verbatim>\<open>[YomiMark] Annotation failed:\<close> by the call's own \<^verbatim>\<open>catch\<close> function, the
    floating button is removed and the handlers of the call are discarded.
\<close>

theorem annotateSelection_failure_leaves_page:
  assumes "st = run tokenize evs initial_state"
  shows "fst (annotateSelection tokenize sel st) = Returns_undefined
    \<and> (tokenizer st = None \<longrightarrow>
         document_ops (snd (annotateSelection tokenize sel st)) = document_ops st)
    \<and> document_ops (step tokenize (Ev_build n (Build_error err)) st) = document_ops st
    \<and> ((\<forall>e\<in>set evs. \<not> is_build_ok e) \<longrightarrow> tokenizer st = None \<and> document_ops st = [])
    \<and> (tokenizer st = None \<and> \<not> tokenizerLoading st
        \<and> rangeCount s \<noteq> 0 \<and> trim (toString s) \<noteq> []
        \<and> (\<forall>e\<in>set later. \<not> is_build_of (builds st) e) \<longrightarrow>
         builds st \<in> set (pending
            (run tokenize later (snd (annotateSelection tokenize (Some s) st))))
         \<and> document_ops (step tokenize (Ev_build (builds st) (Build_error err))
              (run tokenize later (snd (annotateSelection tokenize (Some s) st))))
            = document_ops st
         \<and> floatingBtn (step tokenize (Ev_build (builds st) (Build_error err))
              (run tokenize later (snd (annotateSelection tokenize (Some s) st)))) = None
         \<and> Console_error (js ''[YomiMark] Annotation failed:'') err
             \<in> set (console (step tokenize (Ev_build (builds st) (Build_error err))
              (run tokenize later (snd (annotateSelection tokenize (Some s) st)))))
         \<and> (builds st, Annotate_handlers (getRangeAt0 s) (trim (toString s)))
             \<notin> set (reactions (step tokenize (Ev_build (builds st) (Build_error err))
              (run tokenize later (snd (annotateSelection tokenize (Some s) st))))))"
proof -
  have wf: "wf_state st" unfolding assms by (rule wf_run)
  have 1: "fst (annotateSelection tokenize sel st) = Returns_undefined"
    by (rule annotateSelection_returns)
  have 2: "tokenizer st = None \<longrightarrow>
         document_ops (snd (annotateSelection tokenize sel st)) = document_ops st"
    using wf by (simp add: annotateSelection_document)
  have 3: "document_ops (step tokenize (Ev_build n (Build_error err)) st) = document_ops st"
    by (simp add: build_callback_error_document)
  have 4: "tokenizer st = None \<and> document_ops st = []" if "\<forall>e\<in>set evs. \<not> is_build_ok e"
    using never_loaded_run [OF that, of tokenize] by (simp add: never_loaded_def assms)
  have 5: "builds st \<in> set (pending
            (run tokenize later (snd (annotateSelection tokenize (Some s) st))))
         \<and> document_ops (step tokenize (Ev_build (builds st) (Build_error err))
              (run tokenize later (snd (annotateSelection tokenize (Some s) st))))
            = document_ops st
         \<and> floatingBtn (step tokenize (Ev_build (builds st) (Build_error err))
              (run tokenize later (snd (annotateSelection tokenize (Some s) st)))) = None
         \<and> Console_error (js ''[YomiMark] Annotation failed:'') err
             \<in> set (console (step tokenize (Ev_build (builds st) (Build_error err))
              (run tokenize later (snd (annotateSelection tokenize (Some s) st)))))
         \<and> (builds st, Annotate_handlers (getRangeAt0 s) (trim (toString s)))
             \<notin> set (reactions (step tokenize (Ev_build (builds st) (Build_error err))
              (run tokenize later (snd (annotateSelection tokenize (Some s) st)))))"
    if h: "tokenizer st = None" "\<not> tokenizerLoading st" "rangeCount s \<noteq> 0"
      "trim (toString s) \<noteq> []" "\<forall>e\<in>set later. \<not> is_build_of (builds st) e"
  proof -
    let ?n = "builds st"
    let ?r = "Annotate_handlers (getRangeAt0 s) (trim (toString s))"
    let ?st1 = "snd (annotateSelection tokenize (Some s) st)"
    let ?st2 = "run tokenize later ?st1"
    have wf1: "wf_state ?st1" using wf by (rule wf_annotateSelection)
    have p1: "?n \<in> set (pending ?st1)"
      using annotateSelection_starts_load(1) [OF wf h(1-4), of tokenize] by simp
    have r1: "(?n, ?r) \<in> set (reactions ?st1)"
      by (rule annotateSelection_starts_load(2) [OF wf h(1-4)])
    have d1: "document_ops ?st1 = document_ops st"
      using wf h(1) by (rule annotateSelection_document)
    have w: "wf_state ?st2 \<and> ?n \<in> set (pending ?st2) \<and> (?n, ?r) \<in> set (reactions ?st2)
        \<and> document_ops ?st2 = document_ops ?st1"
      by (rule waiting_run [OF wf1 p1 r1 _ h(5)]) simp
    then have p2: "?n \<in> set (pending ?st2)" and r2: "(?n, ?r) \<in> set (reactions ?st2)"
      and d2: "document_ops ?st2 = document_ops st"
      by (simp_all add: d1)
    have c: "floatingBtn (step tokenize (Ev_build ?n (Build_error err)) ?st2) = None
        \<and> Console_error (js ''[YomiMark] Annotation failed:'') err
            \<in> set (console (step tokenize (Ev_build ?n (Build_error err)) ?st2))
        \<and> (?n, ?r) \<notin> set (reactions (step tokenize (Ev_build ?n (Build_error err)) ?st2))"
      using p2 r2 build_error_caught
        [of ?n "getRangeAt0 s" "trim (toString s)"
          "?st2\<lparr>pending := removeAll ?n (pending ?st2)\<rparr>" tokenize err]
      by simp
    have d3: "document_ops (step tokenize (Ev_build ?n (Build_error err)) ?st2) = document_ops st"
      by (simp add: build_callback_error_document d2)
    from p2 c d3 show ?thesis by blast
  qed
  from 1 2 3 4 5 show ?thesis by blast
qed

lemma example_before_annotate:
  "run example_tokenize [Ev_create_button] initial_state
   = \<lparr>tokenizer = None, tokenizerLoading = False,
      floatingBtn = Some \<lparr>textContent = [0x8AAD], loading = False\<rparr>, builds = 0,
      pending = [], reactions = [], settled = [],
      console = [Console_log (js ''[YomiMark] Content script loaded'')],
      document_ops = []\<rparr>"
  by (simp add: run_def createFloatingBtn_def removeFloatingBtn_def initial_state_def)

lemma example_selection_nonempty:
  "rangeCount example_selection \<noteq> 0" "trim (toString example_selection) \<noteq> []"
  by (simp_all add: example_selection_def trim_def is_white_space_def)

theorem annotateSelection_failure_leaves_page_witness:
  "tokenizer (run example_tokenize [Ev_create_button] initial_state) = None
   \<and> \<not> tokenizerLoading (run example_tokenize [Ev_create_button] initial_state)
   \<and> \<not> is_build_ok Ev_create_button
   \<and> rangeCount example_selection \<noteq> 0 \<and> trim (toString example_selection) \<noteq> []
   \<and> \<not> is_build_of 0 (Ev_annotate (Some example_selection))
   \<and> document_ops (snd (annotateSelection example_tokenize (Some example_selection)
        (run example_tokenize [Ev_create_button] initial_state))) = []
   \<and> document_ops (step example_tokenize (Ev_build 0 (Build_error (LoadError 0)))
        (run example_tokenize [Ev_annotate (Some example_selection)]
          (snd (annotateSelection example_tokenize (Some example_selection)
            (run example_tokenize [Ev_create_button] initial_state))))) = []
   \<and> floatingBtn (step example_tokenize (Ev_build 0 (Build_error (LoadError 0)))
        (run example_tokenize [Ev_annotate (Some example_selection)]
          (snd (annotateSelection example_tokenize (Some example_selection)
            (run example_tokenize [Ev_create_button] initial_state))))) = None
   \<and> Console_error (js ''[YomiMark] Annotation failed:'') (LoadError 0)
       \<in> set (console (step example_tokenize (Ev_build 0 (Build_error (LoadError 0)))
        (run example_tokenize [Ev_annotate (Some example_selection)]
          (snd (annotateSelection example_tokenize (Some example_selection)
            (run example_tokenize [Ev_create_button] initial_state))))))"
proof -
  let ?evs = "[Ev_create_button]"
  let ?st = "run example_tokenize ?evs initial_state"
  let ?later = "[Ev_annotate (Some example_selection)]"
  have t: "tokenizer ?st = None" and l: "\<not> tokenizerLoading ?st" and b: "builds ?st = 0"
    and d: "document_ops ?st = []"
    by (simp_all add: example_before_annotate)
  have e: "\<forall>e\<in>set ?evs. \<not> is_build_ok e" by simp
  have e2: "\<forall>e\<in>set ?later. \<not> is_build_of (builds ?st) e" by simp
  note s = example_selection_nonempty
  note w = annotateSelection_failure_leaves_page
    [where st = ?st and tokenize = example_tokenize and evs = ?evs
      and sel = "Some example_selection" and n = 0 and err = "LoadError 0"
      and s = example_selection and later = ?later, OF refl]
  from w t l e e2 s have
    "document_ops (snd (annotateSelection example_tokenize (Some example_selection) ?st))
       = document_ops ?st"
    "document_ops (step example_tokenize (Ev_build (builds ?st) (Build_error (LoadError 0)))
        (run example_tokenize ?later
          (snd (annotateSelection example_tokenize (Some example_selection) ?st))))
       = document_ops ?st"
    "floatingBtn (step example_tokenize (Ev_build (builds ?st) (Build_error (LoadError 0)))
        (run example_tokenize ?later
          (snd (annotateSelection example_tokenize (Some example_selection) ?st)))) = None"
    "Console_error (js ''[YomiMark] Annotation failed:'') (LoadError 0)
       \<in> set (console (step example_tokenize (Ev_build (builds ?st) (Build_error (LoadError 0)))
        (run example_tokenize ?later
          (snd (annotateSelection example_tokenize (Some example_selection) ?st)))))"
    by blast+
  then show ?thesis
    unfolding b d using t l s by simp
qed

end
